theory Spec2Isabelle
  imports Complex_Main "HOL-Library.Log_Nat"
begin

section \<open>JavaScript strings and numbers, as far as the services use them\<close>

text \<open>
  A JavaScript string is a sequence of UTF-16 code units. The model uses \<^typ>\<open>string\<close>:
  one \<^typ>\<open>char\<close> stands for one code unit below 256, so the model covers the strings
  over ISO-8859-1 and \<open>length\<close> counts what \<open>.length\<close> counts on them.
  A JavaScript number that may be \<open>NaN\<close> is an \<^typ>\<open>int option\<close>, with \<open>None\<close> for \<open>NaN\<close>.
\<close>

definition isSpace :: "char \<Rightarrow> bool" where
  \<comment> \<open>the class \<open>\s\<close> of a regular expression, and the white space \<open>parseInt\<close> skips,
      among the code units below 256: TAB, LF, VT, FF, CR, SP, NBSP\<close>
  "isSpace c \<longleftrightarrow> (of_char c :: nat) \<in> {9, 10, 11, 12, 13, 32, 160}"

definition isDigit :: "char \<Rightarrow> bool" where
  \<comment> \<open>the class \<open>\d\<close>, and a digit of radix 10\<close>
  "isDigit c \<longleftrightarrow> 48 \<le> (of_char c :: nat) \<and> (of_char c :: nat) \<le> 57"

definition digitVal :: "char \<Rightarrow> int" where
  "digitVal c = int (of_char c) - 48"

definition stripHyphensSpaces :: "string \<Rightarrow> string" where
  \<comment> \<open>\<open>s.replace(/[-\s]/g, '')\<close>\<close>
  "stripHyphensSpaces s = filter (\<lambda>c. c \<noteq> CHR ''-'' \<and> \<not> isSpace c) s"

definition digitsToInt :: "string \<Rightarrow> int" where
  "digitsToInt ds = foldl (\<lambda>a c. 10 * a + digitVal c) 0 ds"

definition parseInt10 :: "string \<Rightarrow> int option" where
  \<comment> \<open>\<open>parseInt(s, 10)\<close>: skip leading white space, read an optional sign, then the longest
      prefix of decimal digits; \<open>NaN\<close> when that prefix is empty. The value is the exact
      integer (JavaScript rounds it to a double beyond 2^53).\<close>
  "parseInt10 s =
     (let t = dropWhile isSpace s;
          neg = (case t of [] \<Rightarrow> False | c # _ \<Rightarrow> c = CHR ''-'');
          u = (case t of [] \<Rightarrow> [] | c # r \<Rightarrow> if c = CHR ''-'' \<or> c = CHR ''+'' then r else t);
          z = takeWhile isDigit u
      in if z = [] then None
         else Some ((if neg then - 1 else 1) * digitsToInt z))"

definition parseIntAt :: "string \<Rightarrow> nat \<Rightarrow> int option" where
  \<comment> \<open>\<open>parseInt(s[i], 10)\<close>; out of range \<open>s[i]\<close> is \<open>undefined\<close>, which parses to \<open>NaN\<close>\<close>
  "parseIntAt s i = (if i < length s then parseInt10 [s ! i] else None)"

fun natToString :: "nat \<Rightarrow> string" where
  "natToString n =
     (if n < 10 then [char_of (48 + n)]
      else natToString (n div 10) @ [char_of (48 + n mod 10)])"

definition numberToString :: "int option \<Rightarrow> string" where
  \<comment> \<open>string conversion of an integer-valued number or \<open>NaN\<close>, as in \<open>base + checkDigit\<close>\<close>
  "numberToString v =
     (case v of None \<Rightarrow> ''NaN''
      | Some n \<Rightarrow> if n < 0 then CHR ''-'' # natToString (nat (- n)) else natToString (nat n))"

definition jsRem :: "int \<Rightarrow> int \<Rightarrow> int" where
  \<comment> \<open>the \<open>%\<close> of JavaScript on integers, divisor not 0: the sign follows the dividend\<close>
  "jsRem a b = sgn a * (\<bar>a\<bar> mod \<bar>b\<bar>)"

definition substring :: "string \<Rightarrow> nat \<Rightarrow> nat \<Rightarrow> string" where
  \<comment> \<open>\<open>s.substring(i, j)\<close> for \<open>i \<le> j\<close>; indices beyond the end are clamped to it\<close>
  "substring s i j = take (j - i) (drop i s)"

definition startsWith :: "string \<Rightarrow> string \<Rightarrow> bool" where
  "startsWith s p \<longleftrightarrow> take (length p) s = p"

section \<open>ISBN conversion (keepaApi.ts)\<close>

definition isbn10to13 :: "string \<Rightarrow> string option" where
  "isbn10to13 isbn10 =
     (let clean = stripHyphensSpaces isbn10 in
      if length clean \<noteq> 10 then None
      else
        let base = ''978'' @ substring clean 0 9;
            sum = fold (\<lambda>i sum.
                    case (sum, parseIntAt base i) of
                      (Some s, Some d) \<Rightarrow> Some (s + d * (if i mod 2 = 0 then 1 else 3))
                    | _ \<Rightarrow> None) [0..<12] (Some 0);
            checkDigit = map_option (\<lambda>s. jsRem (10 - jsRem s 10) 10) sum
        in Some (base @ numberToString checkDigit))"

definition isbn13to10 :: "string \<Rightarrow> string option" where
  "isbn13to10 isbn13 =
     (let clean = stripHyphensSpaces isbn13 in
      if length clean \<noteq> 13 \<or> \<not> startsWith clean ''978'' then None
      else
        let base = substring clean 3 12;
            sum = fold (\<lambda>i sum.
                    case (sum, parseIntAt base i) of
                      (Some s, Some d) \<Rightarrow> Some (s + d * (10 - int i))
                    | _ \<Rightarrow> None) [0..<9] (Some 0);
            remainder = map_option (\<lambda>s. jsRem s 11) sum;
            checkDigit =
              (if remainder = Some 0 then ''0''
               else if remainder = Some 1 then ''X''
               else numberToString (map_option (\<lambda>r. 11 - r) remainder))
        in Some (base @ checkDigit))"

subsection \<open>Validity of an ISBN-10, as the standard defines it\<close>

definition isbn10CheckValue :: "char \<Rightarrow> int option" where
  \<comment> \<open>the value of a check character: a digit, or \<open>X\<close> for ten\<close>
  "isbn10CheckValue c =
     (if isDigit c then Some (digitVal c) else if c = CHR ''X'' then Some 10 else None)"

definition weightedSum10 :: "string \<Rightarrow> int" where
  \<comment> \<open>the first nine digits, weighted 10 down to 2\<close>
  "weightedSum10 ds = sum_list (map (\<lambda>(i, c). (10 - int i) * digitVal c) (zip [0..<9] ds))"

definition validIsbn10 :: "string \<Rightarrow> bool" where
  "validIsbn10 x \<longleftrightarrow>
     length x = 10 \<and> list_all isDigit (take 9 x) \<and>
     (case isbn10CheckValue (x ! 9) of
        None \<Rightarrow> False
      | Some v \<Rightarrow> (weightedSum10 (take 9 x) + v) mod 11 = 0)"


subsection \<open>The conversions as the specification words them, without the promise on digits\<close>

definition separators :: "char list" where
  \<comment> \<open>the hyphen, and the white space among the code units below 256: the space, TAB, LF, VT,
      FF, CR and the no-break space\<close>
  "separators = [CHR ''-'', CHR '' '', CHR 0x09, CHR 0x0A, CHR 0x0B, CHR 0x0C, CHR 0x0D, CHR 0xA0]"

fun withoutSeparators :: "string \<Rightarrow> string" where
  \<comment> \<open>a string after removing hyphens and white space\<close>
  "withoutSeparators [] = []"
| "withoutSeparators (c # cs) =
     (if c \<in> set separators then withoutSeparators cs else c # withoutSeparators cs)"

definition decimalDigit :: "nat \<Rightarrow> char" where
  \<comment> \<open>the character of a digit value\<close>
  "decimalDigit n = char_of (48 + n)"

definition ean13CheckDigit :: "string \<Rightarrow> nat" where
  \<comment> \<open>the check digit of the standard for twelve digits: weights 1 and 3 in turn\<close>
  "ean13CheckDigit ds =
     nat ((10 - sum_list (map (\<lambda>(i, c). (if even i then 1 else 3) * digitVal c)
                            (zip [0..<12] ds)) mod 10) mod 10)"

definition isbn10CheckChar :: "string \<Rightarrow> char" where
  \<comment> \<open>the check character of the standard for nine digits: \<open>X\<close> stands for ten\<close>
  "isbn10CheckChar ds =
     (let r = weightedSum10 ds mod 11 in
      if r = 0 then CHR ''0'' else if r = 1 then CHR ''X'' else decimalDigit (nat (11 - r)))"

definition isbn10to13Amended :: "string \<Rightarrow> string option" where
  \<comment> \<open>\<open>null\<close> unless ten characters remain; then \<open>978\<close>, the first nine of them and the
      check digit, or \<open>NaN\<close> in its place when one of the nine is not a digit\<close>
  "isbn10to13Amended s =
     (let c = withoutSeparators s in
      if length c = 10 then
        (let b = ''978'' @ take 9 c in
         Some (b @ (if list_all isDigit b then [decimalDigit (ean13CheckDigit b)] else ''NaN'')))
      else None)"

definition isbn13to10Amended :: "string \<Rightarrow> string option" where
  \<comment> \<open>\<open>null\<close> unless thirteen characters remain and start with \<open>978\<close>; then the nine
      characters after the prefix and the check character, or \<open>NaN\<close> in its place when one of
      the nine is not a digit\<close>
  "isbn13to10Amended s =
     (let c = withoutSeparators s in
      if length c = 13 \<and> take 3 c = ''978'' then
        (let b = take 9 (drop 3 c) in
         Some (b @ (if list_all isDigit b then [isbn10CheckChar b] else ''NaN'')))
      else None)"
section \<open>Decision logic (keepaApi.ts)\<close>

datatype decision = BUY | REVIEW | REJECT

record decisionResult =
  decision :: decision
  reason :: string
  score :: int

definition truthy :: "int option \<Rightarrow> bool" where
  \<comment> \<open>a value of type \<open>number | null\<close> used as a condition: \<open>null\<close> and \<open>0\<close> are falsy\<close>
  "truthy v \<longleftrightarrow> (case v of None \<Rightarrow> False | Some n \<Rightarrow> n \<noteq> 0)"

definition numberAnd :: "int option \<Rightarrow> (int \<Rightarrow> bool) \<Rightarrow> bool" where
  \<comment> \<open>\<open>v && P(v)\<close> used as a condition\<close>
  "numberAnd v P \<longleftrightarrow> (case v of None \<Rightarrow> False | Some n \<Rightarrow> n \<noteq> 0 \<and> P n)"

definition notNullAnd :: "int option \<Rightarrow> (int \<Rightarrow> bool) \<Rightarrow> bool" where
  \<comment> \<open>\<open>v !== null && P(v)\<close>\<close>
  "notNullAnd v P \<longleftrightarrow> (case v of None \<Rightarrow> False | Some n \<Rightarrow> P n)"

definition makeDecision ::
  "int \<Rightarrow> int \<Rightarrow> int option \<Rightarrow> int option \<Rightarrow> int \<Rightarrow> bool \<Rightarrow> decisionResult" where
  "makeDecision profit roi salesRank salesDrops30 fbaCount isAmazon =
     (if profit < 300 then \<lparr>decision = REJECT, reason = ''Profit below $3'', score = 0\<rparr>
      else if roi < 30 then \<lparr>decision = REJECT, reason = ''ROI below 30%'', score = 0\<rparr>
      else if numberAnd salesRank (\<lambda>r. r > 3000000)
        then \<lparr>decision = REJECT, reason = ''Rank too high (>3M)'', score = 0\<rparr>
      else if notNullAnd salesDrops30 (\<lambda>d. d < 2)
        then \<lparr>decision = REJECT, reason = ''No sales velocity'', score = 0\<rparr>
      else if isAmazon then \<lparr>decision = REJECT, reason = ''Amazon is selling'', score = 0\<rparr>
      else
        let score = 50;
            score = (if profit \<ge> 1000 then score + 20
                     else if profit \<ge> 500 then score + 10 else score);
            score = (if roi \<ge> 100 then score + 15
                     else if roi \<ge> 50 then score + 10 else score);
            score = (if truthy salesRank then
                       (if numberAnd salesRank (\<lambda>r. r < 100000) then score + 15
                        else if numberAnd salesRank (\<lambda>r. r < 500000) then score + 10
                        else if numberAnd salesRank (\<lambda>r. r < 1000000) then score + 5
                        else score)
                     else score);
            score = (if numberAnd salesDrops30 (\<lambda>d. d \<ge> 10) then score + 10
                     else if numberAnd salesDrops30 (\<lambda>d. d \<ge> 5) then score + 5 else score);
            score = (if fbaCount > 10 then score - 10
                     else if fbaCount > 5 then score - 5 else score);
            score = min 100 (max 0 score)
        in if score \<ge> 70 then \<lparr>decision = BUY, reason = ''Strong opportunity'', score = score\<rparr>
           else if score \<ge> 50 then \<lparr>decision = REVIEW, reason = ''Needs review'', score = score\<rparr>
           else \<lparr>decision = REJECT, reason = ''Below threshold'', score = score\<rparr>)"

subsection \<open>The decision policy as the specification words it\<close>

definition knockoutRules ::
  "int \<Rightarrow> int \<Rightarrow> int option \<Rightarrow> int option \<Rightarrow> bool \<Rightarrow> (bool \<times> string) list" where
  \<comment> \<open>the five knockout rules in their precedence order, each with its reason\<close>
  "knockoutRules profit roi salesRank salesDrops30 isFirstParty =
     [(profit < 300, ''Profit below $3''),
      (roi < 30, ''ROI below 30%''),
      (case salesRank of None \<Rightarrow> False | Some r \<Rightarrow> r > 3000000, ''Rank too high (>3M)''),
      (case salesDrops30 of None \<Rightarrow> False | Some d \<Rightarrow> d < 2, ''No sales velocity''),
      (isFirstParty, ''Amazon is selling'')]"

definition firstKnockout ::
  "int \<Rightarrow> int \<Rightarrow> int option \<Rightarrow> int option \<Rightarrow> bool \<Rightarrow> string option" where
  \<comment> \<open>the reason of the first rule that matches\<close>
  "firstKnockout profit roi salesRank salesDrops30 isFirstParty =
     map_option snd (find fst (knockoutRules profit roi salesRank salesDrops30 isFirstParty))"

definition profitBonus :: "int \<Rightarrow> int" where
  "profitBonus profit = (if profit \<ge> 1000 then 20 else if profit \<ge> 500 then 10 else 0)"

definition roiBonus :: "int \<Rightarrow> int" where
  "roiBonus roi = (if roi \<ge> 100 then 15 else if roi \<ge> 50 then 10 else 0)"

definition rankBonusStated :: "int option \<Rightarrow> int" where
  \<comment> \<open>as the specification states it: a bonus for every known rank below the bounds\<close>
  "rankBonusStated salesRank =
     (case salesRank of None \<Rightarrow> 0
      | Some r \<Rightarrow> if r < 100000 then 15 else if r < 500000 then 10
                  else if r < 1000000 then 5 else 0)"

definition rankBonus :: "int option \<Rightarrow> int" where
  \<comment> \<open>the amended rule: a rank of 0 counts as unknown\<close>
  "rankBonus salesRank =
     (case salesRank of None \<Rightarrow> 0
      | Some r \<Rightarrow> if r = 0 then 0 else if r < 100000 then 15 else if r < 500000 then 10
                  else if r < 1000000 then 5 else 0)"

definition velocityBonus :: "int option \<Rightarrow> int" where
  "velocityBonus salesDrops30 =
     (case salesDrops30 of None \<Rightarrow> 0
      | Some d \<Rightarrow> if d \<ge> 10 then 10 else if d \<ge> 5 then 5 else 0)"

definition competitionPenalty :: "int \<Rightarrow> int" where
  "competitionPenalty fbaCount = (if fbaCount > 10 then 10 else if fbaCount > 5 then 5 else 0)"

definition clampScore :: "int \<Rightarrow> int" where
  "clampScore s = (if s < 0 then 0 else if s > 100 then 100 else s)"

definition scoreStated :: "int \<Rightarrow> int \<Rightarrow> int option \<Rightarrow> int option \<Rightarrow> int \<Rightarrow> int" where
  "scoreStated profit roi salesRank salesDrops30 fbaCount =
     clampScore (50 + profitBonus profit + roiBonus roi + rankBonusStated salesRank
                 + velocityBonus salesDrops30 - competitionPenalty fbaCount)"

definition scoreAmended :: "int \<Rightarrow> int \<Rightarrow> int option \<Rightarrow> int option \<Rightarrow> int \<Rightarrow> int" where
  "scoreAmended profit roi salesRank salesDrops30 fbaCount =
     clampScore (50 + profitBonus profit + roiBonus roi + rankBonus salesRank
                 + velocityBonus salesDrops30 - competitionPenalty fbaCount)"

definition decisionOfScore :: "int \<Rightarrow> decision" where
  "decisionOfScore s = (if s \<ge> 70 then BUY else if s \<ge> 50 then REVIEW else REJECT)"

section \<open>ISBN extraction from a listing (ebayApi.ts)\<close>

record localizedAspect =
  aspectType :: string
  aspectName :: string
  aspectValue :: string

text \<open>
  The fields of \<open>EbayItemSummary\<close> that \<open>extractISBN\<close> reads, with the item identifier. An
  optional field is an \<open>option\<close>, \<open>None\<close> when it is absent.
\<close>

record ebayItemSummary =
  itemId :: string
  title :: string
  isbn :: "string list option"
  gtin :: "string option"
  localizedAspects :: "localizedAspect list option"

definition toLowerCaseChar :: "char \<Rightarrow> char" where
  \<comment> \<open>the lower case of a code unit below 256: A to Z, and the capital letters of Latin-1\<close>
  "toLowerCaseChar c =
     (let n = (of_char c :: nat) in
      if (65 \<le> n \<and> n \<le> 90) \<or> (192 \<le> n \<and> n \<le> 222 \<and> n \<noteq> 215) then char_of (n + 32) else c)"

definition toLowerCase :: "string \<Rightarrow> string" where
  "toLowerCase s = map toLowerCaseChar s"

fun includesString :: "string \<Rightarrow> string \<Rightarrow> bool" where
  \<comment> \<open>\<open>s.includes(p)\<close>: \<open>p\<close> occurs in \<open>s\<close> as a contiguous run\<close>
  "includesString [] p = (p = [])"
| "includesString (c # cs) p = (startsWith (c # cs) p \<or> includesString cs p)"

definition isWordChar :: "char \<Rightarrow> bool" where
  \<comment> \<open>the class \<open>\w\<close>: letters, digits and the underscore\<close>
  "isWordChar c \<longleftrightarrow>
     (let n = (of_char c :: nat) in
      (48 \<le> n \<and> n \<le> 57) \<or> (65 \<le> n \<and> n \<le> 90) \<or> (97 \<le> n \<and> n \<le> 122) \<or> n = 95)"

definition wordBoundary :: "string \<Rightarrow> nat \<Rightarrow> bool" where
  \<comment> \<open>the assertion \<open>\b\<close> at position \<open>i\<close>: exactly one side of the position is a word
      character\<close>
  "wordBoundary s i \<longleftrightarrow>
     (0 < i \<and> i \<le> length s \<and> isWordChar (s ! (i - 1))) \<noteq> (i < length s \<and> isWordChar (s ! i))"

definition digitsAt :: "string \<Rightarrow> nat \<Rightarrow> nat \<Rightarrow> bool" where
  \<comment> \<open>\<open>\b\d{n}\b\<close> matches at position \<open>i\<close>\<close>
  "digitsAt s i n \<longleftrightarrow>
     wordBoundary s i \<and> i + n \<le> length s \<and> list_all isDigit (substring s i (i + n))
     \<and> wordBoundary s (i + n)"

definition matchAt :: "string \<Rightarrow> nat \<Rightarrow> string option" where
  \<comment> \<open>the group of \<open>/\b(\d{10}|\d{13})\b/\<close> at position \<open>i\<close>: the first alternative first\<close>
  "matchAt s i =
     (if digitsAt s i 10 then Some (substring s i (i + 10))
      else if digitsAt s i 13 then Some (substring s i (i + 13))
      else None)"

definition titleMatch :: "string \<Rightarrow> string option" where
  \<comment> \<open>\<open>title.match(/\b(\d{10}|\d{13})\b/)\<close>: the leftmost position with a match, group 1\<close>
  "titleMatch s =
     (case find (\<lambda>i. matchAt s i \<noteq> None) [0..<Suc (length s)] of
        None \<Rightarrow> None
      | Some i \<Rightarrow> matchAt s i)"

definition extractISBN :: "ebayItemSummary \<Rightarrow> string option" where
  "extractISBN item =
     (case (case isbn item of Some (x # xs) \<Rightarrow> Some x | _ \<Rightarrow> None) of
        Some x \<Rightarrow> Some x
      | None \<Rightarrow>
     (case (case gtin item of
              None \<Rightarrow> None
            | Some g \<Rightarrow>
                if g = [] then None
                else let cleanGtin = stripHyphensSpaces g in
                  if length cleanGtin = 10 \<or> length cleanGtin = 13 then Some cleanGtin
                  else None) of
        Some g \<Rightarrow> Some g
      | None \<Rightarrow>
     (case (case localizedAspects item of
              None \<Rightarrow> None
            | Some as \<Rightarrow>
                map_option aspectValue
                  (find (\<lambda>a. includesString (toLowerCase (aspectName a)) ''isbn'') as)) of
        Some v \<Rightarrow> Some v
      | None \<Rightarrow> titleMatch (title item))))"

subsection \<open>The four rules as the specification words them\<close>

definition ruleExplicit :: "ebayItemSummary \<Rightarrow> string option" where
  \<comment> \<open>rule 1: the first entry of the explicit ISBN list, when the list is not empty\<close>
  "ruleExplicit item = (case isbn item of Some (x # xs) \<Rightarrow> Some x | _ \<Rightarrow> None)"

definition ruleGtin :: "ebayItemSummary \<Rightarrow> string option" where
  \<comment> \<open>rule 2: the GTIN without hyphens and white space, when 10 or 13 characters remain\<close>
  "ruleGtin item =
     (case gtin item of
        None \<Rightarrow> None
      | Some g \<Rightarrow>
          if length (withoutSeparators g) \<in> {10, 13} then Some (withoutSeparators g) else None)"

definition equalIgnoringCase :: "char \<Rightarrow> char \<Rightarrow> bool" where
  \<comment> \<open>a character equals a lower-case ASCII letter up to case\<close>
  "equalIgnoringCase c l \<longleftrightarrow> c = l \<or> (of_char c :: nat) + 32 = of_char l"

fun containsIsbn :: "string \<Rightarrow> bool" where
  \<comment> \<open>the letters i, s, b, n in a row, each in either case\<close>
  "containsIsbn (a # b # c # d # r) =
     ((equalIgnoringCase a CHR ''i'' \<and> equalIgnoringCase b CHR ''s''
       \<and> equalIgnoringCase c CHR ''b'' \<and> equalIgnoringCase d CHR ''n'')
      \<or> containsIsbn (b # c # d # r))"
| "containsIsbn _ = False"

definition ruleAspect :: "ebayItemSummary \<Rightarrow> string option" where
  \<comment> \<open>rule 3: the value of the first aspect whose name contains "isbn", ignoring case\<close>
  "ruleAspect item =
     (case localizedAspects item of
        None \<Rightarrow> None
      | Some as \<Rightarrow> map_option aspectValue (find (\<lambda>a. containsIsbn (aspectName a)) as))"

definition standaloneNumberAt :: "string \<Rightarrow> nat \<Rightarrow> string \<Rightarrow> bool" where
  \<comment> \<open>\<open>d\<close> is a run of 10 or 13 digits at position \<open>i\<close> of \<open>s\<close> with no word character next
      to it on either side\<close>
  "standaloneNumberAt s i d \<longleftrightarrow>
     (length d = 10 \<or> length d = 13) \<and> list_all isDigit d
     \<and> i + length d \<le> length s \<and> take (length d) (drop i s) = d
     \<and> (i = 0 \<or> \<not> isWordChar (s ! (i - 1)))
     \<and> (i + length d = length s \<or> \<not> isWordChar (s ! (i + length d)))"

definition firstSome :: "'a option list \<Rightarrow> 'a option" where
  \<comment> \<open>the value of the first rule that matches\<close>
  "firstSome rs = (case find (\<lambda>r. r \<noteq> None) rs of None \<Rightarrow> None | Some r \<Rightarrow> r)"

section \<open>The retrying fetch wrapper (ebayApi.ts)\<close>

text \<open>
  One call of \<open>fetch\<close> either resolves with a response, of which the wrapper reads the
  status and the \<open>Retry-After\<close> header, or rejects (a failure of the network). The server
  and the network are a function from the number of the attempt, counted from 0, to the outcome
  of that call. The wrapper's effects are the calls of \<open>fetch\<close> and the waits; the model
  returns them with the outcome.
\<close>

record response =
  status :: int
  retryAfterHeader :: "string option"

datatype transport = Resolves response | Rejects

datatype fetchError =
  RateLimitExceeded \<comment> \<open>\<open>Rate limit exceeded after 2 retries\<close>\<close>
  | ServerError int \<comment> \<open>\<open>Server error <status> after retries\<close>\<close>
  | TransportError \<comment> \<open>the error \<open>fetch\<close> rejected with\<close>
  | RequestFailed \<comment> \<open>\<open>Request failed after retries\<close>\<close>

record fetchOutcome =
  outcome :: "fetchError + response"
  attempts :: nat
  waits :: "int list"

definition maxRetries :: nat where "maxRetries = 2"
definition initialDelayMs :: int where "initialDelayMs = 1000"
definition maxDelayMs :: int where "maxDelayMs = 30000"
definition backoffMultiplier :: int where "backoffMultiplier = 2"

definition rateLimitWait :: "response \<Rightarrow> int \<Rightarrow> int" where
  \<comment> \<open>the wait after a 429: the header in milliseconds when it is there, not empty, and
      starts with an integer, else the backoff delay; capped in both cases\<close>
  "rateLimitWait r delay =
     (let waitTime = delay;
          waitTime = (case retryAfterHeader r of
                        None \<Rightarrow> waitTime
                      | Some h \<Rightarrow>
                          if h = [] then waitTime
                          else (case parseInt10 h of
                                  None \<Rightarrow> waitTime
                                | Some retrySeconds \<Rightarrow> retrySeconds * 1000))
      in min waitTime maxDelayMs)"

definition nextDelay :: "int \<Rightarrow> int" where
  "nextDelay delay = min (delay * backoffMultiplier) maxDelayMs"

function fetchLoop ::
  "(nat \<Rightarrow> transport) \<Rightarrow> nat \<Rightarrow> int \<Rightarrow> fetchError option \<Rightarrow> int list \<Rightarrow> fetchOutcome" where
  "fetchLoop server attempt delay lastError slept =
     (if attempt \<le> maxRetries then
        (case server attempt of
           Resolves r \<Rightarrow>
             if status r = 429 then
               if attempt = maxRetries
               then \<comment> \<open>thrown inside \<open>try\<close>, caught below it: no wait, the loop ends\<close>
                 fetchLoop server (attempt + 1) delay (Some RateLimitExceeded) slept
               else fetchLoop server (attempt + 1) (nextDelay delay) lastError
                      (slept @ [rateLimitWait r delay])
             else if status r \<ge> 500 \<and> status r < 600 then
               if attempt = maxRetries
               then fetchLoop server (attempt + 1) delay (Some (ServerError (status r))) slept
               else fetchLoop server (attempt + 1) (nextDelay delay) lastError (slept @ [delay])
             else \<lparr>outcome = Inr r, attempts = attempt + 1, waits = slept\<rparr>
         | Rejects \<Rightarrow>
             if attempt < maxRetries
             then fetchLoop server (attempt + 1) (nextDelay delay) (Some TransportError)
                    (slept @ [delay])
             else fetchLoop server (attempt + 1) delay (Some TransportError) slept)
      else \<lparr>outcome = Inl (case lastError of Some e \<Rightarrow> e | None \<Rightarrow> RequestFailed),
             attempts = attempt, waits = slept\<rparr>)"
  by pat_completeness auto
termination
  by (relation "measure (\<lambda>(server, attempt, delay, lastError, slept). Suc maxRetries - attempt)")
    auto

declare fetchLoop.simps [simp del]

definition fetchWithRetry :: "(nat \<Rightarrow> transport) \<Rightarrow> fetchOutcome" where
  "fetchWithRetry server = fetchLoop server 0 initialDelayMs None []"

subsection \<open>The retry policy as the specification words it\<close>

definition retriable :: "transport \<Rightarrow> bool" where
  \<comment> \<open>a 429, a 5xx or a failure of the network\<close>
  "retriable t \<longleftrightarrow>
     (case t of Rejects \<Rightarrow> True
      | Resolves r \<Rightarrow> status r = 429 \<or> (500 \<le> status r \<and> status r < 600))"

definition backoffDelay :: "nat \<Rightarrow> int" where
  \<comment> \<open>1000 ms, doubled at each retry, capped at 30000 ms\<close>
  "backoffDelay k = min (1000 * 2 ^ k) 30000"

definition retryAfterSeconds :: "transport \<Rightarrow> int option" where
  \<comment> \<open>the seconds of the \<open>Retry-After\<close> header of a 429, when present and parseable\<close>
  "retryAfterSeconds t =
     (case t of Rejects \<Rightarrow> None
      | Resolves r \<Rightarrow>
          if status r = 429
          then (case retryAfterHeader r of None \<Rightarrow> None | Some h \<Rightarrow> parseInt10 h)
          else None)"

definition waitStated :: "nat \<Rightarrow> transport \<Rightarrow> int" where
  \<comment> \<open>as the specification states it: the header's value in milliseconds, uncapped\<close>
  "waitStated k t = (case retryAfterSeconds t of Some n \<Rightarrow> n * 1000 | None \<Rightarrow> backoffDelay k)"

definition waitAmended :: "nat \<Rightarrow> transport \<Rightarrow> int" where
  \<comment> \<open>the amended rule: the header's value in milliseconds capped at 30000 ms\<close>
  "waitAmended k t =
     (case retryAfterSeconds t of Some n \<Rightarrow> min (n * 1000) 30000 | None \<Rightarrow> backoffDelay k)"

definition finalError :: "transport \<Rightarrow> fetchError" where
  \<comment> \<open>what the wrapper throws when the last attempt ends in \<open>t\<close>\<close>
  "finalError t =
     (case t of Rejects \<Rightarrow> TransportError
      | Resolves r \<Rightarrow> if status r = 429 then RateLimitExceeded else ServerError (status r))"

subsection \<open>Two servers\<close>

definition rateLimitedOnce :: "nat \<Rightarrow> transport" where
  \<comment> \<open>a 429 with \<open>Retry-After: 60\<close>, then 200\<close>
  "rateLimitedOnce k =
     (if k = 0 then Resolves \<lparr>status = 429, retryAfterHeader = Some ''60''\<rparr>
      else Resolves \<lparr>status = 200, retryAfterHeader = None\<rparr>)"

definition unreachable :: "nat \<Rightarrow> transport" where
  \<comment> \<open>every call of \<open>fetch\<close> rejects\<close>
  "unreachable k = Rejects"

definition busyThenDown :: "nat \<Rightarrow> transport" where
  \<comment> \<open>a 429 without header, a 503, then 500 for ever\<close>
  "busyThenDown k =
     (if k = 0 then Resolves \<lparr>status = 429, retryAfterHeader = None\<rparr>
      else if k = 1 then Resolves \<lparr>status = 503, retryAfterHeader = None\<rparr>
      else Resolves \<lparr>status = 500, retryAfterHeader = None\<rparr>)"

section \<open>Double-precision arithmetic\<close>

text \<open>
  A JavaScript number is an IEEE 754 double. A finite number is modelled by the rational it
  denotes, and an arithmetic operation by the exact operation followed by rounding to the
  nearest double, ties to the even significand. The rounding keeps 53 significant bits; it
  does not model overflow to infinity (results of magnitude 2^1024 and more) nor the
  subnormal numbers (magnitude below 2^-1022), which no computation below reaches on the
  inputs the theorems admit.
\<close>

definition pow2 :: "int \<Rightarrow> rat" where
  "pow2 e = (if 0 \<le> e then 2 ^ nat e else 1 / 2 ^ nat (- e))"

definition binaryExponent :: "rat \<Rightarrow> int" where
  \<comment> \<open>for \<open>x \<noteq> 0\<close>, the \<open>e\<close> with \<open>2^e \<le> |x| < 2^(e+1)\<close>\<close>
  "binaryExponent x =
     (if 1 \<le> \<bar>x\<bar> then bitlen \<lfloor>\<bar>x\<bar>\<rfloor> - 1
      else let b = bitlen \<lfloor>1 / \<bar>x\<bar>\<rfloor> in if \<bar>x\<bar> = pow2 (1 - b) then 1 - b else - b)"

definition roundTiesToEven :: "rat \<Rightarrow> int" where
  \<comment> \<open>the nearest integer, the even one of two nearest\<close>
  "roundTiesToEven x =
     (let f = \<lfloor>x\<rfloor>; d = x - of_int f in
      if d < 1 / 2 then f else if 1 / 2 < d then f + 1 else if even f then f else f + 1)"

definition roundToDouble :: "rat \<Rightarrow> rat" where
  \<comment> \<open>the nearest number with a significand of 53 bits\<close>
  "roundToDouble x =
     (if x = 0 then 0
      else let u = pow2 (binaryExponent x - 52) in of_int (roundTiesToEven (x / u)) * u)"

definition jsAdd :: "rat \<Rightarrow> rat \<Rightarrow> rat" where
  "jsAdd a b = roundToDouble (a + b)"

definition jsSub :: "rat \<Rightarrow> rat \<Rightarrow> rat" where
  "jsSub a b = roundToDouble (a - b)"

definition jsMul :: "rat \<Rightarrow> rat \<Rightarrow> rat" where
  "jsMul a b = roundToDouble (a * b)"

definition jsDiv :: "rat \<Rightarrow> rat \<Rightarrow> rat" where
  \<comment> \<open>for a divisor other than 0\<close>
  "jsDiv a b = roundToDouble (a / b)"

definition mathRound :: "rat \<Rightarrow> rat" where
  \<comment> \<open>\<open>Math.round\<close>: the nearest integer, the larger one of two nearest\<close>
  "mathRound x = of_int \<lfloor>x + 1 / 2\<rfloor>"

definition literal :: "rat \<Rightarrow> rat" where
  \<comment> \<open>the value of a decimal literal of the source text\<close>
  "literal x = roundToDouble x"

section \<open>Fee calculation (keepaApi.ts)\<close>

record fees =
  fbaProfit :: rat
  fbmProfit :: rat
  fbaRoi :: rat
  fbmRoi :: rat
  referralFee :: rat
  fulfillmentFee :: rat

text \<open>
  The two constants local to \<open>calculateFees\<close> that the result does not carry, the
  marketplace fee and the total cost, are functions of the buy price.
\<close>

definition ebayFee :: "rat \<Rightarrow> rat" where
  "ebayFee ebayPriceCents = mathRound (jsMul ebayPriceCents (literal (13 / 100)))"

definition totalEbayCost :: "rat \<Rightarrow> rat" where
  "totalEbayCost ebayPriceCents = jsAdd ebayPriceCents (ebayFee ebayPriceCents)"

definition calculateFees :: "rat \<Rightarrow> rat \<Rightarrow> fees" where
  "calculateFees ebayPriceCents amazonPriceCents =
     (let referralFee = mathRound (jsMul amazonPriceCents (literal (15 / 100)));
          fulfillmentFee = 354;
          inboundShipping = 50;
          closingFee = 180;
          fbmShipping = 399;
          ebayFee = ebayFee ebayPriceCents;
          totalEbayCost = totalEbayCost ebayPriceCents;
          fbaProfit = jsSub (jsSub (jsSub (jsSub amazonPriceCents referralFee) fulfillmentFee)
                        inboundShipping) totalEbayCost;
          fbmProfit = jsSub (jsSub (jsSub (jsSub amazonPriceCents referralFee) closingFee)
                        fbmShipping) totalEbayCost;
          fbaRoi = (if totalEbayCost > 0
                    then mathRound (jsMul (jsDiv fbaProfit totalEbayCost) 100) else 0);
          fbmRoi = (if totalEbayCost > 0
                    then mathRound (jsMul (jsDiv fbmProfit totalEbayCost) 100) else 0)
      in \<lparr>fbaProfit = fbaProfit, fbmProfit = fbmProfit, fbaRoi = fbaRoi, fbmRoi = fbmRoi,
          referralFee = referralFee, fulfillmentFee = fulfillmentFee\<rparr>)"

subsection \<open>The fees in exact arithmetic, as the specification states them\<close>

definition roundHalfUp :: "rat \<Rightarrow> int" where
  \<comment> \<open>rounding to the nearest integer, a half upwards\<close>
  "roundHalfUp x = \<lfloor>x + 1 / 2\<rfloor>"

definition referralFeeStated :: "int \<Rightarrow> int" where
  "referralFeeStated sellPrice = roundHalfUp (of_int sellPrice * (15 / 100))"

definition marketplaceFeeStated :: "int \<Rightarrow> int" where
  "marketplaceFeeStated buyPrice = roundHalfUp (of_int buyPrice * (13 / 100))"

definition totalCostStated :: "int \<Rightarrow> int" where
  "totalCostStated buyPrice = buyPrice + marketplaceFeeStated buyPrice"

definition platformProfitStated :: "int \<Rightarrow> int \<Rightarrow> int" where
  "platformProfitStated buyPrice sellPrice =
     sellPrice - referralFeeStated sellPrice - 354 - 50 - totalCostStated buyPrice"

definition merchantProfitStated :: "int \<Rightarrow> int \<Rightarrow> int" where
  "merchantProfitStated buyPrice sellPrice =
     sellPrice - referralFeeStated sellPrice - 180 - 399 - totalCostStated buyPrice"

definition roiStated :: "int \<Rightarrow> int \<Rightarrow> int" where
  \<comment> \<open>the percentage, rounded once, in exact arithmetic\<close>
  "roiStated profit totalCost =
     (if totalCost > 0 then roundHalfUp (of_int profit / of_int totalCost * 100) else 0)"

definition roiDouble :: "int \<Rightarrow> int \<Rightarrow> rat" where
  \<comment> \<open>the percentage as the code computes it: the quotient rounded to a double, the product
      rounded to a double, then \<open>Math.round\<close>\<close>
  "roiDouble profit totalCost =
     (if totalCost > 0
      then mathRound (roundToDouble (roundToDouble (of_int profit / of_int totalCost) * 100))
      else 0)"

section \<open>Product records from the raw payload (keepaApi.ts)\<close>

text \<open>
  A number of the payload is the rational it denotes; an optional field, or one that is
  \<open>null\<close>, is \<open>None\<close>. Reading an array beyond its end gives \<open>undefined\<close>, here \<open>None\<close>.
  Where a raw record and the product record have a field of the same name, the raw one carries
  the prefix \<open>raw\<close> or \<open>stats\<close>; the title of the product is \<open>productTitle\<close>.
\<close>

record keepaStats =
  current :: "rat list option"
  avg30 :: "rat list option"
  avg90 :: "rat list option"
  statsSalesRankDrops90 :: "rat option"
  statsSalesRankDrops30 :: "rat option"
  statsBuyBoxPrice :: "rat option"
  offerCountNew :: "rat option"
  offerCountUsed :: "rat option"
  offerCountFBA :: "rat option"
  statsOutOfStockPercentage90 :: "rat option"

record categoryNode =
  catId :: rat
  catName :: string

record keepaProductRaw =
  rawAsin :: string
  rawTitle :: "string option"
  csv :: "rat list option list option"
  stats :: "keepaStats option"
  imagesCSV :: "string option"
  categoryTree :: "categoryNode list option"
  rawLastUpdate :: "rat option"

record keepaProduct =
  asin :: string
  productTitle :: string
  salesRank :: "rat option"
  amazonPrice :: "rat option"
  newPrice :: "rat option"
  usedPrice :: "rat option"
  newFbaPrice :: "rat option"
  buyBoxPrice :: "rat option"
  newOfferCount :: rat
  usedOfferCount :: rat
  fbaOfferCount :: rat
  rating :: "rat option"
  reviewCount :: rat
  salesRank30DayAvg :: "rat option"
  salesRank90DayAvg :: "rat option"
  salesRankDrops30 :: "rat option"
  salesRankDrops90 :: "rat option"
  daysWithSales30 :: nat
  daysWithSales90 :: nat
  avgPrice90 :: "rat option"
  outOfStockPercentage90 :: "rat option"
  imageUrl :: "string option"
  category :: "string option"
  isAmazon :: bool
  lastUpdate :: rat

text \<open>The indices \<open>PRICE_TYPES\<close> into the arrays of the payload.\<close>

definition AMAZON :: nat where "AMAZON = 0"
definition NEW :: nat where "NEW = 1"
definition USED :: nat where "USED = 2"
definition SALES_RANK :: nat where "SALES_RANK = 3"
definition NEW_FBA :: nat where "NEW_FBA = 7"
definition COUNT_NEW :: nat where "COUNT_NEW = 11"
definition COUNT_USED :: nat where "COUNT_USED = 12"
definition RATING :: nat where "RATING = 16"
definition COUNT_REVIEWS :: nat where "COUNT_REVIEWS = 17"
definition COUNT_NEW_FBA :: nat where "COUNT_NEW_FBA = 28"

definition elementAt :: "'a list \<Rightarrow> nat \<Rightarrow> 'a option" where
  \<comment> \<open>\<open>xs[i]\<close>, \<open>undefined\<close> beyond the end\<close>
  "elementAt xs i = (if i < length xs then Some (xs ! i) else None)"

definition orElse :: "'a option \<Rightarrow> 'a option \<Rightarrow> 'a option" where
  \<comment> \<open>\<open>a ?? b\<close>\<close>
  "orElse a b = (case a of Some v \<Rightarrow> Some v | None \<Rightarrow> b)"

definition orDefault :: "'a option \<Rightarrow> 'a \<Rightarrow> 'a" where
  \<comment> \<open>\<open>a ?? d\<close> with a default that is there\<close>
  "orDefault a d = (case a of Some v \<Rightarrow> v | None \<Rightarrow> d)"

definition getLatestValue :: "rat list option \<Rightarrow> rat option" where
  "getLatestValue series =
     (case series of
        None \<Rightarrow> None
      | Some xs \<Rightarrow>
          if length xs < 2 then None
          else let v = xs ! (length xs - 1) in if v < 0 then None else Some v)"

definition keepaPriceToCents :: "rat option \<Rightarrow> rat option" where
  "keepaPriceToCents price =
     (case price of None \<Rightarrow> None | Some p \<Rightarrow> if p < 0 then None else Some p)"

text \<open>
  \<open>calculateDaysWithSales\<close> reads the clock and the calendar of the local time zone: the time
  \<open>now\<close> in milliseconds and the function \<open>dayOf\<close>, from a time in milliseconds to its
  calendar day, are parameters.
\<close>

fun daysLoop ::
  "rat \<Rightarrow> (rat \<Rightarrow> 'd) \<Rightarrow> rat list \<Rightarrow> rat option \<Rightarrow> 'd list \<Rightarrow> 'd list" where
  "daysLoop cutoffTime dayOf (keepaTime # rank # rest) prevRank daysWithDrops =
     (let timestamp = jsMul (jsAdd keepaTime 21564000) 60000 in
      if timestamp < cutoffTime
      then daysLoop cutoffTime dayOf rest (if rank > 0 then Some rank else None) daysWithDrops
      else if rank < 0 then daysLoop cutoffTime dayOf rest prevRank daysWithDrops
      else daysLoop cutoffTime dayOf rest (Some rank)
             (case prevRank of
                None \<Rightarrow> daysWithDrops
              | Some p \<Rightarrow>
                  if rank < p then List.insert (dayOf timestamp) daysWithDrops
                  else daysWithDrops))"
| "daysLoop cutoffTime dayOf _ prevRank daysWithDrops = daysWithDrops"

definition calculateDaysWithSales ::
  "rat \<Rightarrow> (rat \<Rightarrow> 'd) \<Rightarrow> rat list option \<Rightarrow> rat \<Rightarrow> nat" where
  "calculateDaysWithSales now dayOf rankCsv days =
     (case rankCsv of
        None \<Rightarrow> 0
      | Some xs \<Rightarrow>
          if length xs < 4 then 0
          else
            let cutoffTime = jsSub now (jsMul (jsMul (jsMul (jsMul days 24) 60) 60) 1000)
            in length (daysLoop cutoffTime dayOf xs None []))"

definition csvAt :: "keepaProductRaw \<Rightarrow> nat \<Rightarrow> rat list option" where
  \<comment> \<open>\<open>csv[i]\<close> with \<open>csv = raw.csv || []\<close>: a series, or \<open>null\<close> or \<open>undefined\<close>\<close>
  "csvAt raw i =
     (case csv raw of None \<Rightarrow> None
      | Some c \<Rightarrow> (case elementAt c i of None \<Rightarrow> None | Some s \<Rightarrow> s))"

definition currentAt :: "keepaProductRaw \<Rightarrow> nat \<Rightarrow> rat option" where
  \<comment> \<open>\<open>currentStats[i]\<close> with \<open>currentStats = stats?.current || []\<close>\<close>
  "currentAt raw i =
     (case stats raw of None \<Rightarrow> None
      | Some s \<Rightarrow> (case current s of None \<Rightarrow> None | Some c \<Rightarrow> elementAt c i))"

definition statsField :: "keepaProductRaw \<Rightarrow> (keepaStats \<Rightarrow> 'a option) \<Rightarrow> 'a option" where
  \<comment> \<open>\<open>stats?.field\<close>\<close>
  "statsField raw f = (case stats raw of None \<Rightarrow> None | Some s \<Rightarrow> f s)"

definition statsArrayAt ::
  "keepaProductRaw \<Rightarrow> (keepaStats \<Rightarrow> rat list option) \<Rightarrow> nat \<Rightarrow> rat option" where
  \<comment> \<open>\<open>stats?.field?.[i]\<close>\<close>
  "statsArrayAt raw f i =
     (case statsField raw f of None \<Rightarrow> None | Some xs \<Rightarrow> elementAt xs i)"

definition parseKeepaProduct :: "rat \<Rightarrow> (rat \<Rightarrow> 'd) \<Rightarrow> keepaProductRaw \<Rightarrow> keepaProduct" where
  "parseKeepaProduct now dayOf raw =
     (let salesRank = getLatestValue (csvAt raw SALES_RANK);
          salesRank30DayAvg = statsArrayAt raw avg30 SALES_RANK;
          salesRank90DayAvg = statsArrayAt raw avg90 SALES_RANK;
          amazonPrice = keepaPriceToCents
            (orElse (currentAt raw AMAZON) (getLatestValue (csvAt raw AMAZON)));
          newPrice = keepaPriceToCents
            (orElse (currentAt raw NEW) (getLatestValue (csvAt raw NEW)));
          usedPrice = keepaPriceToCents
            (orElse (currentAt raw USED) (getLatestValue (csvAt raw USED)));
          newFbaPrice = keepaPriceToCents
            (orElse (currentAt raw NEW_FBA) (getLatestValue (csvAt raw NEW_FBA)));
          rawBuyBoxPrice = statsField raw statsBuyBoxPrice;
          buyBoxPrice = (case rawBuyBoxPrice of
                           None \<Rightarrow> None
                         | Some b \<Rightarrow> if b > 0 then Some b else None);
          newOfferCount = orDefault
            (orElse (statsField raw offerCountNew) (currentAt raw COUNT_NEW)) 0;
          usedOfferCount = orDefault
            (orElse (statsField raw offerCountUsed) (currentAt raw COUNT_USED)) 0;
          fbaOfferCount = orDefault
            (orElse (statsField raw offerCountFBA) (currentAt raw COUNT_NEW_FBA)) 0;
          rating = orElse (currentAt raw RATING) (getLatestValue (csvAt raw RATING));
          reviewCount = orDefault
            (orElse (currentAt raw COUNT_REVIEWS) (getLatestValue (csvAt raw COUNT_REVIEWS))) 0;
          imageUrl = (case imagesCSV raw of
                        None \<Rightarrow> None
                      | Some images \<Rightarrow>
                          if images = [] then None
                          else Some (''https://images-na.ssl-images-amazon.com/images/I/''
                                     @ takeWhile (\<lambda>c. c \<noteq> CHR '','') images));
          category = (case categoryTree raw of
                        None \<Rightarrow> None
                      | Some tree \<Rightarrow> if tree = [] then None else Some (catName (last tree)));
          salesRankDrops90 = statsField raw statsSalesRankDrops90;
          salesRankDrops30 = orElse (statsField raw statsSalesRankDrops30)
            (case salesRankDrops90 of
               None \<Rightarrow> None
             | Some d \<Rightarrow> Some (mathRound (jsDiv d 3)));
          rankCsv = csvAt raw SALES_RANK;
          daysWithSales30 = calculateDaysWithSales now dayOf rankCsv 30;
          daysWithSales90 = calculateDaysWithSales now dayOf rankCsv 90;
          avgPrice90 = keepaPriceToCents (statsArrayAt raw avg90 NEW);
          rawOos = statsField raw statsOutOfStockPercentage90;
          outOfStockPercentage90 = (case rawOos of
                                      None \<Rightarrow> None
                                    | Some p \<Rightarrow> if p \<ge> 0 \<and> p \<le> 100 then Some p else None)
      in \<lparr>asin = rawAsin raw,
          productTitle = (case rawTitle raw of None \<Rightarrow> [] | Some t \<Rightarrow> t),
          salesRank = salesRank,
          amazonPrice = amazonPrice,
          newPrice = newPrice,
          usedPrice = usedPrice,
          newFbaPrice = newFbaPrice,
          buyBoxPrice = buyBoxPrice,
          newOfferCount = max 0 newOfferCount,
          usedOfferCount = max 0 usedOfferCount,
          fbaOfferCount = max 0 fbaOfferCount,
          rating = (case rating of None \<Rightarrow> None | Some r \<Rightarrow> if r \<ge> 0 then Some r else None),
          reviewCount = max 0 reviewCount,
          salesRank30DayAvg = salesRank30DayAvg,
          salesRank90DayAvg = salesRank90DayAvg,
          salesRankDrops30 = salesRankDrops30,
          salesRankDrops90 = salesRankDrops90,
          daysWithSales30 = daysWithSales30,
          daysWithSales90 = daysWithSales90,
          avgPrice90 = avgPrice90,
          outOfStockPercentage90 = outOfStockPercentage90,
          imageUrl = imageUrl,
          category = category,
          isAmazon = (case amazonPrice of None \<Rightarrow> False | Some a \<Rightarrow> a > 0),
          lastUpdate = (case rawLastUpdate raw of None \<Rightarrow> 0 | Some u \<Rightarrow> u)\<rparr>)"

subsection \<open>A payload with negative entries\<close>

definition noDataPayload :: keepaProductRaw where
  \<comment> \<open>the markers of missing data, -1 and -2, in the snapshot, in the series and in the
      counters\<close>
  "noDataPayload =
     \<lparr>rawAsin = ''0306406152'', rawTitle = None,
      csv = Some [Some [100, - 1], None, Some [100, 1500, 200, - 1], Some [100, 5, 200, - 1]],
      stats = Some \<lparr>current = Some [- 1, - 1], avg30 = None, avg90 = Some [- 1, - 1],
                    statsSalesRankDrops90 = Some 7, statsSalesRankDrops30 = None,
                    statsBuyBoxPrice = Some 0, offerCountNew = Some (- 2),
                    offerCountUsed = None, offerCountFBA = Some 3,
                    statsOutOfStockPercentage90 = Some 101\<rparr>,
      imagesCSV = Some ''a.jpg,b.jpg'', categoryTree = Some [], rawLastUpdate = None\<rparr>"

definition listedPayload :: keepaProductRaw where
  \<comment> \<open>a product with offers, a buy box and a rank\<close>
  "listedPayload =
     \<lparr>rawAsin = ''0131103628'', rawTitle = Some ''The C Programming Language'',
      csv = Some [None, None, None, Some [100, 52000, 200, 48000]],
      stats = Some \<lparr>current = Some [- 1, 4599, 1250], avg30 = Some [- 1, 4700, 1300, 50000],
                    avg90 = Some [- 1, 4800, 1350, 51000],
                    statsSalesRankDrops90 = Some 40, statsSalesRankDrops30 = Some 12,
                    statsBuyBoxPrice = Some 4350, offerCountNew = Some 9,
                    offerCountUsed = Some 21, offerCountFBA = Some 4,
                    statsOutOfStockPercentage90 = Some 5\<rparr>,
      imagesCSV = None, categoryTree = None, rawLastUpdate = Some 7654321\<rparr>"

definition utcDay :: "rat \<Rightarrow> int" where
  \<comment> \<open>the calendar of a clock on UTC: the number of the day\<close>
  "utcDay t = \<lfloor>t / 86400000\<rfloor>"

subsection \<open>The invariants of a product record, as the specification words them\<close>

definition nullOrAtLeast :: "rat \<Rightarrow> rat option \<Rightarrow> bool" where
  \<comment> \<open>\<open>null\<close>, or a number not below the bound\<close>
  "nullOrAtLeast b v \<longleftrightarrow> (case v of None \<Rightarrow> True | Some x \<Rightarrow> b \<le> x)"

definition nullOrPositive :: "rat option \<Rightarrow> bool" where
  "nullOrPositive v \<longleftrightarrow> (case v of None \<Rightarrow> True | Some x \<Rightarrow> 0 < x)"

definition nullOrPercentage :: "rat option \<Rightarrow> bool" where
  "nullOrPercentage v \<longleftrightarrow> (case v of None \<Rightarrow> True | Some x \<Rightarrow> 0 \<le> x \<and> x \<le> 100)"

definition lastEntry :: "rat list option \<Rightarrow> rat option" where
  \<comment> \<open>the value of the last entry of a time series; a series is a list of times and values
      in turn, and one with fewer than two numbers has no entry\<close>
  "lastEntry series =
     (case series of
        None \<Rightarrow> None
      | Some xs \<Rightarrow> if 2 \<le> length xs then Some (last xs) else None)"

definition snapshotOrLatest :: "keepaProductRaw \<Rightarrow> nat \<Rightarrow> rat option" where
  \<comment> \<open>the value read for a metric: the current snapshot, or when that is absent the last
      entry of the time series\<close>
  "snapshotOrLatest raw i =
     (case currentAt raw i of
        Some v \<Rightarrow> Some v
      | None \<Rightarrow> lastEntry (csvAt raw i))"

definition noDataIfNegative :: "rat option \<Rightarrow> rat option" where
  \<comment> \<open>a negative value counts as no data\<close>
  "noDataIfNegative v = (case v of None \<Rightarrow> None | Some x \<Rightarrow> if x < 0 then None else Some x)"

definition countRead ::
  "keepaProductRaw \<Rightarrow> (keepaStats \<Rightarrow> rat option) \<Rightarrow> nat \<Rightarrow> rat option" where
  \<comment> \<open>the offer count read: the field of the statistics, or when that is absent the entry
      of the current snapshot\<close>
  "countRead raw f i = (case statsField raw f of Some v \<Rightarrow> Some v | None \<Rightarrow> currentAt raw i)"

definition clampedCount :: "rat option \<Rightarrow> rat" where
  \<comment> \<open>a count that is missing or negative becomes 0\<close>
  "clampedCount v = (case v of None \<Rightarrow> 0 | Some c \<Rightarrow> if c < 0 then 0 else c)"

definition positiveOrNull :: "rat option \<Rightarrow> rat option" where
  "positiveOrNull v = (case v of None \<Rightarrow> None | Some x \<Rightarrow> if 0 < x then Some x else None)"

definition percentageOrNull :: "rat option \<Rightarrow> rat option" where
  "percentageOrNull v =
     (case v of None \<Rightarrow> None | Some x \<Rightarrow> if 0 \<le> x \<and> x \<le> 100 then Some x else None)"
section \<open>The token cache (ebayApi.ts)\<close>











subsection \<open>The result of a fetch and the state of the lock, as the specification words them\<close>



subsection \<open>A token endpoint, and a cache after the clock stepped back\<close>




section \<open>Auxiliary facts\<close>

subsection \<open>Characters, digits and the checksum loops\<close>

lemma length9E:
  assumes "length (x::'a list) = 9"
  obtains a0 a1 a2 a3 a4 a5 a6 a7 a8 where "x = [a0, a1, a2, a3, a4, a5, a6, a7, a8]"
  using assms by (auto simp: length_Suc_conv numeral_eq_Suc)

lemma isDigit_not_sep: "isDigit c \<Longrightarrow> c \<noteq> CHR ''-'' \<and> \<not> isSpace c"
  by (auto simp: isDigit_def isSpace_def)

lemma parseInt10_digit: "isDigit c \<Longrightarrow> parseInt10 [c] = Some (digitVal c)"
  using isDigit_not_sep[of c]
  by (auto simp: parseInt10_def digitsToInt_def isDigit_def Let_def)

lemma digitVal_range: "isDigit c \<Longrightarrow> 0 \<le> digitVal c \<and> digitVal c \<le> 9"
  by (auto simp: isDigit_def digitVal_def)

lemma strip_digits: "list_all isDigit ds \<Longrightarrow> stripHyphensSpaces ds = ds"
  unfolding stripHyphensSpaces_def
  by (induction ds) (auto simp: isDigit_not_sep)

lemma isDigit_char_of: "(n::nat) < 10 \<Longrightarrow> isDigit (char_of (48 + n))"
  by (simp add: isDigit_def of_char_of)

lemma char_of_digitVal:
  assumes "isDigit c"
  shows "char_of (48 + nat (digitVal c)) = c"
proof -
  have "48 \<le> (of_char c :: nat)"
    using assms by (simp add: isDigit_def)
  then have "48 + nat (int (of_char c) - 48) = (of_char c :: nat)"
    by arith
  then show ?thesis by (simp add: digitVal_def)
qed

lemma upt12: "[0..<12] = [0,1,2,3,4,5,6,7,8,9,10,11]"
  by code_simp

lemma upt9: "[0..<9] = [0,1,2,3,4,5,6,7,8]"
  by code_simp

lemma parse978: "parseInt10 ''9'' = Some 9" "parseInt10 ''7'' = Some 7" "parseInt10 ''8'' = Some 8"
  by code_simp+

lemma sum13:
  assumes "list_all isDigit [a0, a1, a2, a3, a4, a5, a6, a7, a8]"
  shows "fold (\<lambda>i sum.
                 case (sum, parseIntAt (''978'' @ [a0, a1, a2, a3, a4, a5, a6, a7, a8]) i) of
                   (Some s, Some d) \<Rightarrow> Some (s + d * (if i mod 2 = 0 then 1 else 3))
                 | _ \<Rightarrow> None) [0..<12] (Some 0)
   = Some (9 + 21 + 8 + digitVal a0 * 3 + digitVal a1 + digitVal a2 * 3 + digitVal a3
     + digitVal a4 * 3 + digitVal a5 + digitVal a6 * 3 + digitVal a7 + digitVal a8 * 3)"
  using assms unfolding upt12
  by (simp add: parseIntAt_def parseInt10_digit parse978)

lemma sum10:
  assumes "list_all isDigit [a0, a1, a2, a3, a4, a5, a6, a7, a8]"
  shows "fold (\<lambda>i sum.
                 case (sum, parseIntAt [a0, a1, a2, a3, a4, a5, a6, a7, a8] i) of
                   (Some s, Some d) \<Rightarrow> Some (s + d * (10 - int i))
                 | _ \<Rightarrow> None) [0..<9] (Some 0)
   = Some (digitVal a0 * 10 + digitVal a1 * 9 + digitVal a2 * 8 + digitVal a3 * 7
     + digitVal a4 * 6 + digitVal a5 * 5 + digitVal a6 * 4 + digitVal a7 * 3 + digitVal a8 * 2)"
  using assms unfolding upt9
  by (simp add: parseIntAt_def parseInt10_digit)

lemma jsRem_nonneg: "0 \<le> a \<Longrightarrow> 0 < b \<Longrightarrow> jsRem a b = a mod b"
  by (cases "a = 0") (simp_all add: jsRem_def)

lemma isbn10to13_shape:
  assumes ds: "list_all isDigit ds" "length ds = 9" and c: "c \<noteq> CHR ''-''" "\<not> isSpace c"
  shows "\<exists>k. isDigit k \<and> isbn10to13 (ds @ [c]) = Some (''978'' @ ds @ [k])"
proof -
  from ds(2) obtain a0 a1 a2 a3 a4 a5 a6 a7 a8
    where x: "ds = [a0, a1, a2, a3, a4, a5, a6, a7, a8]"
    by (rule length9E)
  have clean: "stripHyphensSpaces (ds @ [c]) = ds @ [c]"
    using strip_digits[OF ds(1)] c by (simp add: stripHyphensSpaces_def)
  have sub: "substring (ds @ [c]) 0 9 = ds"
    using ds(2) by (simp add: substring_def)
  define s where "s = 9 + 21 + 8 + digitVal a0 * 3 + digitVal a1 + digitVal a2 * 3 + digitVal a3
     + digitVal a4 * 3 + digitVal a5 + digitVal a6 * 3 + digitVal a7 + digitVal a8 * 3"
  define k where "k = nat ((10 - s mod 10) mod 10)"
  have k10: "k < 10" "(10 - s mod 10) mod 10 = int k"
    unfolding k_def by auto
  have s0: "0 \<le> s"
    using ds(1) digitVal_range unfolding x s_def by (simp add: add_nonneg_nonneg)
  have r1: "jsRem s 10 = s mod 10"
    using s0 by (simp add: jsRem_nonneg)
  have r2: "jsRem (10 - s mod 10) 10 = (10 - s mod 10) mod 10"
    by (rule jsRem_nonneg) (use pos_mod_bound[of 10 s] in auto)
  have "isbn10to13 (ds @ [c]) = Some (''978'' @ ds @ natToString k)"
    unfolding isbn10to13_def clean Let_def sub
    using ds(2) sum13[OF ds(1)[unfolded x]] r1 r2 k10(2)
    by (simp add: x s_def numberToString_def del: natToString.simps)
  then show ?thesis
    using k10(1) isDigit_char_of[of k] by auto
qed

lemma isbn13to10_shape:
  assumes ds: "list_all isDigit ds" "length ds = 9" and k: "isDigit k"
  shows "isbn13to10 (''978'' @ ds @ [k]) =
     Some (ds @ (let r = weightedSum10 ds mod 11 in
                 if r = 0 then ''0'' else if r = 1 then ''X'' else natToString (nat (11 - r))))"
proof -
  from ds(2) obtain a0 a1 a2 a3 a4 a5 a6 a7 a8
    where x: "ds = [a0, a1, a2, a3, a4, a5, a6, a7, a8]"
    by (rule length9E)
  have "list_all isDigit (''978'' @ ds @ [k])"
    using ds(1) k by (simp add: isDigit_def)
  then have clean: "stripHyphensSpaces (''978'' @ ds @ [k]) = ''978'' @ ds @ [k]"
    by (rule strip_digits)
  have sub: "substring (''978'' @ ds @ [k]) 3 12 = ds"
    using ds(2) by (simp add: substring_def)
  define s where "s = digitVal a0 * 10 + digitVal a1 * 9 + digitVal a2 * 8 + digitVal a3 * 7
     + digitVal a4 * 6 + digitVal a5 * 5 + digitVal a6 * 4 + digitVal a7 * 3 + digitVal a8 * 2"
  have s0: "0 \<le> s"
    using ds(1) digitVal_range unfolding x s_def by (simp add: add_nonneg_nonneg)
  have r1: "jsRem s 11 = s mod 11"
    using s0 by (simp add: jsRem_nonneg)
  have c10: "weightedSum10 ds = s"
    unfolding weightedSum10_def x s_def upt9 by simp
  have r11: "s mod 11 < 11" "0 \<le> s mod 11"
    by auto
  show ?thesis
    unfolding isbn13to10_def clean Let_def sub c10
    using ds(2) sum10[OF ds(1)[unfolded x]] r1 r11
    by (simp add: x s_def[symmetric] numberToString_def startsWith_def del: natToString.simps)
qed

lemma char48: "char_of (48::nat) = CHR ''0''"
  by code_simp

lemma valid_check_char:
  assumes "validIsbn10 x"
  shows "(let r = weightedSum10 (take 9 x) mod 11 in
          if r = 0 then ''0'' else if r = 1 then ''X'' else natToString (nat (11 - r))) = [x ! 9]"
proof -
  define S where "S = weightedSum10 (take 9 x)"
  define r where "r = S mod 11"
  from assms obtain v where v: "isbn10CheckValue (x ! 9) = Some v" "(S + v) mod 11 = 0"
    unfolding validIsbn10_def S_def by (auto split: option.splits)
  have vr: "0 \<le> v" "v \<le> 10"
    using v(1) digitVal_range[of "x ! 9"]
    by (auto simp: isbn10CheckValue_def split: if_splits)
  have r: "0 \<le> r" "r < 11"
    unfolding r_def by auto
  have rv: "(r + v) mod 11 = 0"
    using v(2) unfolding r_def by (simp add: mod_add_left_eq)
  have sum: "r + v = 0 \<or> r + v = 11"
    using rv r vr by presburger
  consider (zero) "r = 0" | (one) "r = 1" | (other) "2 \<le> r"
    using r by linarith
  then have "(if r = 0 then ''0'' else if r = 1 then ''X'' else natToString (nat (11 - r))) = [x ! 9]"
  proof cases
    case zero
    then have v0: "v = 0" using sum vr by linarith
    then have d: "isDigit (x ! 9)" "digitVal (x ! 9) = 0"
      using v(1) by (auto simp: isbn10CheckValue_def split: if_splits)
    have "char_of (48 + nat (digitVal (x ! 9))) = x ! 9"
      using d(1) by (rule char_of_digitVal)
    then have "x ! 9 = CHR ''0''"
      unfolding d(2) by (simp add: char48)
    then show ?thesis using zero by simp
  next
    case one
    then have "v = 10" using sum vr by linarith
    then have "x ! 9 = CHR ''X''"
      using v(1) digitVal_range[of "x ! 9"]
      by (auto simp: isbn10CheckValue_def split: if_splits)
    then show ?thesis using one by simp
  next
    case other
    then have v1: "v = 11 - r" "1 \<le> v" "v \<le> 9"
      using sum r vr by auto
    then have d: "isDigit (x ! 9)" "digitVal (x ! 9) = v"
      using v(1) by (auto simp: isbn10CheckValue_def split: if_splits)
    have "char_of (48 + nat (digitVal (x ! 9))) = x ! 9"
      using d(1) by (rule char_of_digitVal)
    moreover have "nat v < 10" using v1 by linarith
    ultimately have "natToString (nat (11 - r)) = [x ! 9]"
      using v1(1) d(2) by simp
    then show ?thesis using other by simp
  qed
  then show ?thesis
    unfolding Let_def r_def S_def .
qed

subsection \<open>The stages of the score\<close>

lemma stage_profit:
  "(if profit \<ge> 1000 then s + 20 else if profit \<ge> 500 then s + 10 else s)
     = s + profitBonus profit"
  by (simp add: profitBonus_def)

lemma stage_roi:
  "(if roi \<ge> 100 then s + 15 else if roi \<ge> 50 then s + 10 else s) = s + roiBonus roi"
  by (simp add: roiBonus_def)

lemma stage_rank:
  "(if truthy rank then
      (if numberAnd rank (\<lambda>r. r < 100000) then s + 15
       else if numberAnd rank (\<lambda>r. r < 500000) then s + 10
       else if numberAnd rank (\<lambda>r. r < 1000000) then s + 5
       else s)
    else s) = s + rankBonus rank"
  by (cases rank) (simp_all add: truthy_def numberAnd_def rankBonus_def)

lemma stage_velocity:
  "(if numberAnd drops (\<lambda>d. d \<ge> 10) then s + 10
    else if numberAnd drops (\<lambda>d. d \<ge> 5) then s + 5 else s)
     = s + velocityBonus drops"
  by (cases drops) (auto simp add: numberAnd_def velocityBonus_def)

lemma stage_competition:
  "(if offers > 10 then s - 10 else if offers > 5 then s - 5 else s)
     = s - competitionPenalty offers"
  by (simp add: competitionPenalty_def)

lemma stage_clamp: "min 100 (max 0 s) = clampScore s"
  by (simp add: clampScore_def)

lemma knockout_None:
  "firstKnockout p r sr sd a = None \<longleftrightarrow>
     \<not> p < 300 \<and> \<not> r < 30 \<and> \<not> numberAnd sr (\<lambda>r. r > 3000000)
     \<and> \<not> notNullAnd sd (\<lambda>d. d < 2) \<and> \<not> a"
  by (cases sr; cases sd)
    (auto simp: firstKnockout_def knockoutRules_def numberAnd_def notNullAnd_def)

lemma makeDecision_scoring:
  assumes "firstKnockout p r sr sd a = None"
  shows "makeDecision p r sr sd f a =
     (let s = scoreAmended p r sr sd f in
      if s \<ge> 70 then \<lparr>decision = BUY, reason = ''Strong opportunity'', score = s\<rparr>
      else if s \<ge> 50 then \<lparr>decision = REVIEW, reason = ''Needs review'', score = s\<rparr>
      else \<lparr>decision = REJECT, reason = ''Below threshold'', score = s\<rparr>)"
proof -
  have k: "\<not> p < 300" "\<not> r < 30" "\<not> numberAnd sr (\<lambda>r. r > 3000000)"
    "\<not> notNullAnd sd (\<lambda>d. d < 2)" "\<not> a"
    using assms by (simp_all add: knockout_None)
  show ?thesis
    unfolding makeDecision_def scoreAmended_def Let_def stage_profit stage_roi stage_rank
      stage_velocity stage_competition stage_clamp
    using k by (simp only: if_False)
qed

lemma knockout_Some:
  assumes "firstKnockout p r sr sd a = Some rsn"
  shows "makeDecision p r sr sd f a = \<lparr>decision = REJECT, reason = rsn, score = 0\<rparr>"
proof -
  let ?rej = "\<lambda>t. \<lparr>decision = REJECT, reason = t, score = 0\<rparr>"
  consider (1) "p < 300" | (2) "\<not> p < 300" "r < 30"
    | (3) "\<not> p < 300" "\<not> r < 30" "numberAnd sr (\<lambda>r. r > 3000000)"
    | (4) "\<not> p < 300" "\<not> r < 30" "\<not> numberAnd sr (\<lambda>r. r > 3000000)"
          "notNullAnd sd (\<lambda>d. d < 2)"
    | (5) "\<not> p < 300" "\<not> r < 30" "\<not> numberAnd sr (\<lambda>r. r > 3000000)"
          "\<not> notNullAnd sd (\<lambda>d. d < 2)" "a"
    | (6) "\<not> p < 300" "\<not> r < 30" "\<not> numberAnd sr (\<lambda>r. r > 3000000)"
          "\<not> notNullAnd sd (\<lambda>d. d < 2)" "\<not> a"
    by blast
  then show ?thesis
  proof cases
    case 1
    then have "firstKnockout p r sr sd a = Some ''Profit below $3''"
      by (simp add: firstKnockout_def knockoutRules_def)
    moreover have "makeDecision p r sr sd f a = ?rej ''Profit below $3''"
      using 1 by (simp add: makeDecision_def)
    ultimately show ?thesis using assms by simp
  next
    case 2
    then have "firstKnockout p r sr sd a = Some ''ROI below 30%''"
      by (simp add: firstKnockout_def knockoutRules_def)
    moreover have "makeDecision p r sr sd f a = ?rej ''ROI below 30%''"
      using 2 by (simp add: makeDecision_def)
    ultimately show ?thesis using assms by simp
  next
    case 3
    then have "firstKnockout p r sr sd a = Some ''Rank too high (>3M)''"
      by (cases sr) (simp_all add: firstKnockout_def knockoutRules_def numberAnd_def)
    moreover have "makeDecision p r sr sd f a = ?rej ''Rank too high (>3M)''"
      using 3 by (simp add: makeDecision_def)
    ultimately show ?thesis using assms by simp
  next
    case 4
    then have "firstKnockout p r sr sd a = Some ''No sales velocity''"
      by (cases sr; cases sd)
        (auto simp add: firstKnockout_def knockoutRules_def numberAnd_def notNullAnd_def)
    moreover have "makeDecision p r sr sd f a = ?rej ''No sales velocity''"
      using 4 by (simp add: makeDecision_def)
    ultimately show ?thesis using assms by simp
  next
    case 5
    then have "firstKnockout p r sr sd a = Some ''Amazon is selling''"
      by (cases sr; cases sd)
        (auto simp add: firstKnockout_def knockoutRules_def numberAnd_def notNullAnd_def)
    moreover have "makeDecision p r sr sd f a = ?rej ''Amazon is selling''"
      using 5 by (simp add: makeDecision_def)
    ultimately show ?thesis using assms by simp
  next
    case 6
    then have "firstKnockout p r sr sd a = None"
      by (simp add: knockout_None)
    then show ?thesis using assms by simp
  qed
qed

lemma scoreAmended_range: "0 \<le> scoreAmended p r sr sd f \<and> scoreAmended p r sr sd f \<le> 100"
  by (simp add: scoreAmended_def clampScore_def)

subsection \<open>The conversions on every string\<close>

lemma isSpace_separators: "c \<noteq> CHR ''-'' \<and> \<not> isSpace c \<longleftrightarrow> c \<notin> set separators"
  by (cases c) (auto simp: isSpace_def separators_def)

lemma stripHyphensSpaces_withoutSeparators: "stripHyphensSpaces s = withoutSeparators s"
proof (induction s)
  case Nil
  show ?case by (simp add: stripHyphensSpaces_def)
next
  case (Cons c cs)
  then have rest: "filter (\<lambda>c. c \<noteq> CHR ''-'' \<and> \<not> isSpace c) cs = withoutSeparators cs"
    by (simp add: stripHyphensSpaces_def)
  show ?case
  proof (cases "c \<in> set separators")
    case True
    then have "\<not> (c \<noteq> CHR ''-'' \<and> \<not> isSpace c)"
      using isSpace_separators[of c] by blast
    then show ?thesis
      using True rest by (simp add: stripHyphensSpaces_def)
  next
    case False
    then have "c \<noteq> CHR ''-'' \<and> \<not> isSpace c"
      using isSpace_separators[of c] by blast
    then show ?thesis
      using False rest by (simp add: stripHyphensSpaces_def)
  qed
qed

lemma parseInt10_not_digit: "\<not> isDigit c \<Longrightarrow> parseInt10 [c] = None"
  by (simp add: parseInt10_def Let_def)

lemma fold_nan_start:
  "fold (\<lambda>i sum. case (sum, g i) of (Some s, Some d) \<Rightarrow> Some (f i s d) | _ \<Rightarrow> None) xs None
     = None"
  by (induction xs) simp_all

lemma fold_nan:
  assumes "j \<in> set xs" "g j = None"
  shows "fold (\<lambda>i sum. case (sum, g i) of (Some s, Some d) \<Rightarrow> Some (f i s d) | _ \<Rightarrow> None) xs acc
     = None"
  using assms(1)
proof (induction xs arbitrary: acc)
  case Nil
  then show ?case by simp
next
  case (Cons x xs)
  show ?case
  proof (cases "x = j")
    case True
    let ?F = "\<lambda>i sum. case (sum, g i) of (Some s, Some d) \<Rightarrow> Some (f i s d) | _ \<Rightarrow> None"
    have step: "?F x acc = None"
      using True assms(2) by (cases acc) simp_all
    have "fold ?F (x # xs) acc = fold ?F xs (?F x acc)"
      by (simp only: fold.simps comp_apply)
    also have "\<dots> = fold ?F xs None"
      by (simp only: step)
    also have "\<dots> = None"
      by (rule fold_nan_start)
    finally show ?thesis .
  next
    case False
    then have "j \<in> set xs" using Cons.prems by simp
    then show ?thesis
      using Cons.IH by simp
  qed
qed

lemma not_all_digits:
  assumes "\<not> list_all isDigit ds"
  obtains j where "j < length ds" "\<not> isDigit (ds ! j)"
  using assms by (auto simp: list_all_length)

lemma sum13_nan:
  assumes "length ds = 9" "\<not> list_all isDigit ds"
  shows "fold (\<lambda>i sum.
                 case (sum, parseIntAt (''978'' @ ds) i) of
                   (Some s, Some d) \<Rightarrow> Some (s + d * (if i mod 2 = 0 then 1 else 3))
                 | _ \<Rightarrow> None) [0..<12] (Some 0) = None"
proof -
  from assms(2) obtain j where j: "j < length ds" "\<not> isDigit (ds ! j)"
    by (rule not_all_digits)
  have "(''978'' @ ds) ! (3 + j) = ds ! j"
    by (simp add: nth_append)
  then have "parseIntAt (''978'' @ ds) (3 + j) = None"
    using j assms(1) by (simp add: parseIntAt_def parseInt10_not_digit)
  moreover have "3 + j \<in> set [0..<12]"
    using j(1) assms(1) by simp
  ultimately show ?thesis
    by (rule fold_nan[rotated])
qed

lemma sum10_nan:
  assumes "length ds = 9" "\<not> list_all isDigit ds"
  shows "fold (\<lambda>i sum.
                 case (sum, parseIntAt ds i) of
                   (Some s, Some d) \<Rightarrow> Some (s + d * (10 - int i))
                 | _ \<Rightarrow> None) [0..<9] (Some 0) = None"
proof -
  from assms(2) obtain j where j: "j < length ds" "\<not> isDigit (ds ! j)"
    by (rule not_all_digits)
  have "parseIntAt ds j = None"
    using j by (simp add: parseIntAt_def parseInt10_not_digit)
  moreover have "j \<in> set [0..<9]"
    using j(1) assms(1) by simp
  ultimately show ?thesis
    by (rule fold_nan[rotated])
qed

lemma startsWith978: "startsWith c ''978'' \<longleftrightarrow> take 3 c = ''978''"
  by (simp add: startsWith_def numeral_3_eq_3)

lemma digitVal978: "digitVal CHR ''9'' = 9" "digitVal CHR ''7'' = 7" "digitVal CHR ''8'' = 8"
  by (simp_all add: digitVal_def)

lemma digits978: "list_all isDigit (''978'' @ ds) \<longleftrightarrow> list_all isDigit ds"
  by (simp add: isDigit_def)

lemma isbn10to13_amended: "isbn10to13 s = isbn10to13Amended s"
proof (cases "length (withoutSeparators s) = 10")
  case False
  then show ?thesis
    by (simp add: isbn10to13_def isbn10to13Amended_def stripHyphensSpaces_withoutSeparators)
next
  case True
  define c where "c = withoutSeparators s"
  define ds where "ds = take 9 c"
  have len: "length c = 10" "length ds = 9"
    using True by (simp_all add: c_def ds_def)
  have sub: "substring c 0 9 = ds"
    by (simp add: substring_def ds_def)
  show ?thesis
  proof (cases "list_all isDigit ds")
    case False
    have "isbn10to13 s = Some (''978'' @ ds @ ''NaN'')"
      unfolding isbn10to13_def stripHyphensSpaces_withoutSeparators c_def[symmetric] Let_def sub
      using len(1) sum13_nan[OF len(2) False]
      by (simp add: numberToString_def)
    moreover have "isbn10to13Amended s = Some (''978'' @ ds @ ''NaN'')"
      unfolding isbn10to13Amended_def c_def[symmetric] Let_def ds_def[symmetric] digits978
      using len(1) False by simp
    ultimately show ?thesis by simp
  next
    case digits: True
    from len(2) obtain a0 a1 a2 a3 a4 a5 a6 a7 a8
      where x: "ds = [a0, a1, a2, a3, a4, a5, a6, a7, a8]"
      by (rule length9E)
    define t where "t = 9 + 21 + 8 + digitVal a0 * 3 + digitVal a1 + digitVal a2 * 3 + digitVal a3
       + digitVal a4 * 3 + digitVal a5 + digitVal a6 * 3 + digitVal a7 + digitVal a8 * 3"
    define k where "k = nat ((10 - t mod 10) mod 10)"
    have k10: "k < 10" "(10 - t mod 10) mod 10 = int k"
      unfolding k_def by auto
    have t0: "0 \<le> t"
      using digits digitVal_range unfolding x t_def by (simp add: add_nonneg_nonneg)
    have r1: "jsRem t 10 = t mod 10"
      using t0 by (simp add: jsRem_nonneg)
    have r2: "jsRem (10 - t mod 10) 10 = (10 - t mod 10) mod 10"
      by (rule jsRem_nonneg) (use pos_mod_bound[of 10 t] in auto)
    have code: "isbn10to13 s = Some (''978'' @ ds @ natToString k)"
      unfolding isbn10to13_def stripHyphensSpaces_withoutSeparators c_def[symmetric] Let_def sub
      using len(1) sum13[OF digits[unfolded x]] r1 r2 k10(2)
      by (simp add: x t_def numberToString_def del: natToString.simps)
    have "sum_list (map (\<lambda>(i, c). (if even i then 1 else 3) * digitVal c)
                     (zip [0..<12] (''978'' @ ds))) = t"
      unfolding x upt12 t_def by (simp add: digitVal978)
    then have std: "ean13CheckDigit (''978'' @ ds) = k"
      unfolding ean13CheckDigit_def k_def by simp
    have "isbn10to13Amended s = Some (''978'' @ ds @ [decimalDigit k])"
      unfolding isbn10to13Amended_def c_def[symmetric] Let_def ds_def[symmetric] digits978 std
      using len(1) digits by simp
    then show ?thesis
      using code k10(1) by (simp add: decimalDigit_def)
  qed
qed

lemma isbn13to10_amended: "isbn13to10 s = isbn13to10Amended s"
proof (cases "length (withoutSeparators s) = 13 \<and> take 3 (withoutSeparators s) = ''978''")
  case False
  then show ?thesis
    unfolding isbn13to10_def isbn13to10Amended_def stripHyphensSpaces_withoutSeparators
      startsWith978 Let_def
    by auto
next
  case True
  define c where "c = withoutSeparators s"
  define ds where "ds = take 9 (drop 3 c)"
  have len: "length c = 13" "take 3 c = ''978''" "length ds = 9"
    using True by (simp_all add: c_def ds_def)
  have sub: "substring c 3 12 = ds"
    by (simp add: substring_def ds_def)
  have pre: "startsWith c ''978''"
    using len(2) by (simp only: startsWith978)
  show ?thesis
  proof (cases "list_all isDigit ds")
    case False
    have "isbn13to10 s = Some (ds @ ''NaN'')"
      unfolding isbn13to10_def stripHyphensSpaces_withoutSeparators c_def[symmetric] Let_def sub
      using len(1) pre sum10_nan[OF len(3) False]
      by (simp add: numberToString_def)
    moreover have "isbn13to10Amended s = Some (ds @ ''NaN'')"
      unfolding isbn13to10Amended_def c_def[symmetric] Let_def ds_def[symmetric]
      using len(1,2) False by simp
    ultimately show ?thesis by simp
  next
    case digits: True
    from len(3) obtain a0 a1 a2 a3 a4 a5 a6 a7 a8
      where x: "ds = [a0, a1, a2, a3, a4, a5, a6, a7, a8]"
      by (rule length9E)
    define t where "t = digitVal a0 * 10 + digitVal a1 * 9 + digitVal a2 * 8 + digitVal a3 * 7
       + digitVal a4 * 6 + digitVal a5 * 5 + digitVal a6 * 4 + digitVal a7 * 3 + digitVal a8 * 2"
    have t0: "0 \<le> t"
      using digits digitVal_range unfolding x t_def by (simp add: add_nonneg_nonneg)
    have r1: "jsRem t 11 = t mod 11"
      using t0 by (simp add: jsRem_nonneg)
    have c10: "weightedSum10 ds = t"
      unfolding weightedSum10_def x t_def upt9 by simp
    have r11: "t mod 11 < 11" "0 \<le> t mod 11"
      by auto
    have code: "isbn13to10 s =
        Some (ds @ (if t mod 11 = 0 then ''0'' else if t mod 11 = 1 then ''X''
                    else natToString (nat (11 - t mod 11))))"
      unfolding isbn13to10_def stripHyphensSpaces_withoutSeparators c_def[symmetric] Let_def sub
      using len(1) pre sum10[OF digits[unfolded x]] r1 r11
      by (simp add: x t_def[symmetric] numberToString_def del: natToString.simps)
    have small: "nat (11 - t mod 11) < 10" if "t mod 11 \<noteq> 0" "t mod 11 \<noteq> 1"
      using that r11 by linarith
    have "isbn13to10Amended s = Some (ds @ [isbn10CheckChar ds])"
      unfolding isbn13to10Amended_def c_def[symmetric] Let_def ds_def[symmetric]
      using len(1,2) digits by simp
    then show ?thesis
      using code small by (simp add: isbn10CheckChar_def c10 decimalDigit_def Let_def)
  qed
qed

subsection \<open>Case folding and the regular expression of the title\<close>


lemma of_char_eq_iff': "(of_char c :: nat) = of_char d \<longleftrightarrow> c = d"
  by (metis char_of_char)

lemma lower_letter:
  assumes "97 \<le> (of_char l :: nat)" "(of_char l :: nat) \<le> 122"
  shows "toLowerCaseChar c = l \<longleftrightarrow> equalIgnoringCase c l"
proof -
  define n where "n = (of_char c :: nat)"
  have eq: "c = l \<longleftrightarrow> n = of_char l"
    unfolding n_def by (simp add: of_char_eq_iff')
  consider (up) "65 \<le> n \<and> n \<le> 90" | (lat) "192 \<le> n \<and> n \<le> 222 \<and> n \<noteq> 215"
    | (other) "\<not> (65 \<le> n \<and> n \<le> 90) \<and> \<not> (192 \<le> n \<and> n \<le> 222 \<and> n \<noteq> 215)"
    by blast
  then show ?thesis
  proof cases
    case up
    then have "toLowerCaseChar c = char_of (n + 32)"
      by (simp add: toLowerCaseChar_def n_def[symmetric])
    moreover have "(of_char (char_of (n + 32)) :: nat) = n + 32"
      using up by (simp add: of_char_of)
    then have "char_of (n + 32) = l \<longleftrightarrow> n + 32 = of_char l"
      by (metis char_of_char)
    ultimately show ?thesis
      using up assms eq unfolding equalIgnoringCase_def n_def[symmetric] by auto
  next
    case lat
    then have "toLowerCaseChar c = char_of (n + 32)"
      by (simp add: toLowerCaseChar_def n_def[symmetric])
    moreover have "(of_char (char_of (n + 32)) :: nat) = n + 32"
      using lat by (simp add: of_char_of)
    ultimately have "(of_char (toLowerCaseChar c) :: nat) = n + 32"
      by simp
    then have "toLowerCaseChar c \<noteq> l"
      using lat assms by auto
    then show ?thesis
      using lat assms eq unfolding equalIgnoringCase_def n_def[symmetric] by auto
  next
    case other
    then have "toLowerCaseChar c = c"
      by (auto simp add: toLowerCaseChar_def n_def[symmetric])
    then show ?thesis
      using other assms eq unfolding equalIgnoringCase_def n_def[symmetric] by auto
  qed
qed

lemma lower_isbn:
  "toLowerCaseChar c = CHR ''i'' \<longleftrightarrow> equalIgnoringCase c CHR ''i''"
  "toLowerCaseChar c = CHR ''s'' \<longleftrightarrow> equalIgnoringCase c CHR ''s''"
  "toLowerCaseChar c = CHR ''b'' \<longleftrightarrow> equalIgnoringCase c CHR ''b''"
  "toLowerCaseChar c = CHR ''n'' \<longleftrightarrow> equalIgnoringCase c CHR ''n''"
  by (rule lower_letter; simp)+

lemma includes_isbn: "includesString (toLowerCase s) ''isbn'' \<longleftrightarrow> containsIsbn s"
proof (induction s rule: containsIsbn.induct)
  case (1 a b c d r)
  have "startsWith (toLowerCase (a # b # c # d # r)) ''isbn'' \<longleftrightarrow>
      equalIgnoringCase a CHR ''i'' \<and> equalIgnoringCase b CHR ''s''
       \<and> equalIgnoringCase c CHR ''b'' \<and> equalIgnoringCase d CHR ''n''"
    by (simp add: startsWith_def toLowerCase_def lower_isbn)
  moreover have "includesString (toLowerCase (a # b # c # d # r)) ''isbn'' \<longleftrightarrow>
     startsWith (toLowerCase (a # b # c # d # r)) ''isbn''
     \<or> includesString (toLowerCase (b # c # d # r)) ''isbn''"
    by (simp add: toLowerCase_def)
  ultimately show ?case
    using 1 by simp
qed (simp_all add: toLowerCase_def startsWith_def)



lemma isDigit_isWordChar: "isDigit c \<Longrightarrow> isWordChar c"
  by (simp add: isDigit_def isWordChar_def)

lemma digitsAt_iff:
  assumes "0 < n"
  shows "digitsAt s i n \<longleftrightarrow>
     i + n \<le> length s \<and> list_all isDigit (take n (drop i s))
     \<and> (i = 0 \<or> \<not> isWordChar (s ! (i - 1)))
     \<and> (i + n = length s \<or> \<not> isWordChar (s ! (i + n)))"
proof (cases "i + n \<le> length s \<and> list_all isDigit (take n (drop i s))")
  case False
  then show ?thesis
    by (auto simp: digitsAt_def substring_def)
next
  case True
  then have len: "i + n \<le> length s" and dig: "list_all isDigit (take n (drop i s))"
    by auto
  have nth: "isDigit (s ! (i + k))" if "k < n" for k
  proof -
    have "take n (drop i s) ! k = s ! (i + k)"
      using that len by simp
    moreover have "k < length (take n (drop i s))"
      using that len by simp
    ultimately show ?thesis
      using dig by (metis list_all_length)
  qed
  have first: "isWordChar (s ! i)"
    using nth[of 0] assms by (simp add: isDigit_isWordChar)
  have "isDigit (s ! (i + (n - 1)))"
    using nth[of "n - 1"] assms by simp
  then have last: "isWordChar (s ! (i + n - 1))"
    using assms by (simp add: isDigit_isWordChar)
  have b1: "wordBoundary s i \<longleftrightarrow> (i = 0 \<or> \<not> isWordChar (s ! (i - 1)))"
    using first len assms unfolding wordBoundary_def by auto
  have b2: "wordBoundary s (i + n) \<longleftrightarrow> (i + n = length s \<or> \<not> isWordChar (s ! (i + n)))"
    using last len assms unfolding wordBoundary_def by auto
  show ?thesis
    using True b1 b2 by (simp add: digitsAt_def substring_def)
qed

lemma matchAt_iff: "matchAt s i = Some d \<longleftrightarrow> standaloneNumberAt s i d"
proof
  assume m: "matchAt s i = Some d"
  show "standaloneNumberAt s i d"
  proof (cases "digitsAt s i 10")
    case True
    then have d: "d = take 10 (drop i s)"
      using m by (simp add: matchAt_def substring_def)
    show ?thesis
      using True unfolding digitsAt_iff[of 10, simplified] standaloneNumberAt_def d
      by (auto simp add: min_def)
  next
    case False
    then have t: "digitsAt s i 13" and d: "d = take 13 (drop i s)"
      using m by (auto simp add: matchAt_def substring_def split: if_splits)
    show ?thesis
      using t unfolding digitsAt_iff[of 13, simplified] standaloneNumberAt_def d
      by (auto simp add: min_def)
  qed
next
  assume st: "standaloneNumberAt s i d"
  then consider (ten) "length d = 10" | (thirteen) "length d = 13"
    by (auto simp: standaloneNumberAt_def)
  then show "matchAt s i = Some d"
  proof cases
    case ten
    then have "digitsAt s i 10" and "take 10 (drop i s) = d"
      using st unfolding digitsAt_iff[of 10, simplified] standaloneNumberAt_def by auto
    then show ?thesis
      by (simp add: matchAt_def substring_def)
  next
    case thirteen
    then have t: "digitsAt s i 13" and d: "take 13 (drop i s) = d"
      using st unfolding digitsAt_iff[of 13, simplified] standaloneNumberAt_def by auto
    have len: "i + 13 \<le> length s"
      using st thirteen by (simp add: standaloneNumberAt_def)
    have "take 13 (drop i s) ! 10 = s ! (i + 10)"
      using len by simp
    then have "d ! 10 = s ! (i + 10)"
      using d by simp
    moreover have "isDigit (d ! 10)"
      using st thirteen by (simp add: standaloneNumberAt_def list_all_length)
    ultimately have "isWordChar (s ! (i + 10))"
      by (simp add: isDigit_isWordChar)
    then have "\<not> digitsAt s i 10"
      using len unfolding digitsAt_iff[of 10, simplified] by auto
    then show ?thesis
      using t d by (simp add: matchAt_def substring_def)
  qed
qed



lemma titleMatch_Some:
  "titleMatch s = Some d \<longleftrightarrow>
     (\<exists>i. standaloneNumberAt s i d \<and> (\<forall>j<i. \<forall>e. \<not> standaloneNumberAt s j e))"
proof
  assume "titleMatch s = Some d"
  then obtain i where f: "find (\<lambda>i. matchAt s i \<noteq> None) [0..<Suc (length s)] = Some i"
    and m: "matchAt s i = Some d"
    by (auto simp: titleMatch_def split: option.splits)
  from f have "\<forall>j<i. matchAt s j = None"
    by (auto simp: find_Some_iff nth_upt simp del: upt_Suc)
  then have "\<forall>j<i. \<forall>e. \<not> standaloneNumberAt s j e"
    by (simp add: matchAt_iff[symmetric])
  then show "\<exists>i. standaloneNumberAt s i d \<and> (\<forall>j<i. \<forall>e. \<not> standaloneNumberAt s j e)"
    using m matchAt_iff by blast
next
  assume "\<exists>i. standaloneNumberAt s i d \<and> (\<forall>j<i. \<forall>e. \<not> standaloneNumberAt s j e)"
  then obtain i where st: "standaloneNumberAt s i d"
    and first: "\<forall>j<i. \<forall>e. \<not> standaloneNumberAt s j e"
    by blast
  have i: "i < Suc (length s)"
    using st by (auto simp: standaloneNumberAt_def)
  have m: "matchAt s i = Some d"
    using st by (simp add: matchAt_iff)
  have none: "\<forall>j<i. matchAt s j = None"
  proof (intro allI impI)
    fix j
    assume "j < i"
    then have "\<forall>e. \<not> standaloneNumberAt s j e"
      using first by blast
    then show "matchAt s j = None"
      using matchAt_iff[of s j] by (cases "matchAt s j") auto
  qed
  have "find (\<lambda>i. matchAt s i \<noteq> None) [0..<Suc (length s)] = Some i"
    unfolding find_Some_iff
    using i m none by (intro exI[of _ i]) (auto simp: nth_upt simp del: upt_Suc)
  then show "titleMatch s = Some d"
    using m by (simp add: titleMatch_def)
qed

lemma titleMatch_None: "titleMatch s = None \<longleftrightarrow> (\<forall>i d. \<not> standaloneNumberAt s i d)"
proof
  assume n: "titleMatch s = None"
  show "\<forall>i d. \<not> standaloneNumberAt s i d"
  proof (intro allI notI)
    fix i d
    assume st: "standaloneNumberAt s i d"
    then have m: "matchAt s i = Some d"
      by (simp add: matchAt_iff)
    have "i \<in> set [0..<Suc (length s)]"
      using st by (auto simp: standaloneNumberAt_def)
    then have "find (\<lambda>i. matchAt s i \<noteq> None) [0..<Suc (length s)] \<noteq> None"
      using m unfolding find_None_iff by (metis option.distinct(1))
    then obtain k where k: "find (\<lambda>i. matchAt s i \<noteq> None) [0..<Suc (length s)] = Some k"
      by blast
    then have "matchAt s k \<noteq> None"
      by (auto simp: find_Some_iff)
    then show False
      using n k by (simp add: titleMatch_def)
  qed
next
  assume "\<forall>i d. \<not> standaloneNumberAt s i d"
  then have "\<And>d. titleMatch s \<noteq> Some d"
    using titleMatch_Some[of s] by blast
  then show "titleMatch s = None"
    by (cases "titleMatch s") auto
qed

lemma ruleGtin_code:
  "(case gtin item of
      None \<Rightarrow> None
    | Some g \<Rightarrow>
        if g = [] then None
        else let cleanGtin = stripHyphensSpaces g in
          if length cleanGtin = 10 \<or> length cleanGtin = 13 then Some cleanGtin
          else None) = ruleGtin item"
  by (auto simp: ruleGtin_def Let_def stripHyphensSpaces_withoutSeparators split: option.splits)

lemma ruleAspect_code:
  "(case localizedAspects item of
      None \<Rightarrow> None
    | Some as \<Rightarrow>
        map_option aspectValue
          (find (\<lambda>a. includesString (toLowerCase (aspectName a)) ''isbn'') as)) = ruleAspect item"
  by (cases "localizedAspects item") (simp_all add: ruleAspect_def includes_isbn)

lemma extractISBN_rules:
  "extractISBN item =
     firstSome [ruleExplicit item, ruleGtin item, ruleAspect item, titleMatch (title item)]"
  unfolding extractISBN_def ruleGtin_code ruleAspect_code ruleExplicit_def[symmetric]
  by (cases "ruleExplicit item"; cases "ruleGtin item"; cases "ruleAspect item";
      cases "titleMatch (title item)") (simp_all add: firstSome_def)


subsection \<open>Unfolding the retry loop\<close>


lemma fetchLoop_last:
  "fetchLoop server 2 delay e slept =
     (case server 2 of
        Rejects \<Rightarrow> \<lparr>outcome = Inl TransportError, attempts = 3, waits = slept\<rparr>
      | Resolves r \<Rightarrow>
          if status r = 429 then \<lparr>outcome = Inl RateLimitExceeded, attempts = 3, waits = slept\<rparr>
          else if status r \<ge> 500 \<and> status r < 600
            then \<lparr>outcome = Inl (ServerError (status r)), attempts = 3, waits = slept\<rparr>
          else \<lparr>outcome = Inr r, attempts = 3, waits = slept\<rparr>)"
  by (simp add: fetchLoop.simps[of server 2] fetchLoop.simps[of server 3] maxRetries_def
      split: transport.splits)

lemma fetchLoop_last_retriable:
  assumes "retriable (server 2)"
  shows "fetchLoop server 2 delay e slept =
     \<lparr>outcome = Inl (finalError (server 2)), attempts = 3, waits = slept\<rparr>"
  using assms unfolding fetchLoop_last
  by (auto simp: retriable_def finalError_def split: transport.splits)

lemma fetchLoop_last_return:
  assumes "server 2 = Resolves r" "\<not> retriable (server 2)"
  shows "fetchLoop server 2 delay e slept = \<lparr>outcome = Inr r, attempts = 3, waits = slept\<rparr>"
  using assms unfolding fetchLoop_last
  by (auto simp: retriable_def)

lemma fetchLoop_lastError: "fetchLoop server 2 delay e slept = fetchLoop server 2 delay' e' slept"
  unfolding fetchLoop_last ..

lemma parseInt10_empty: "parseInt10 [] = None"
  by (simp add: parseInt10_def)

lemma codeWait:
  assumes "retriable t" "delay = backoffDelay k" 
  shows "(case t of Rejects \<Rightarrow> delay
          | Resolves r \<Rightarrow> if status r = 429 then rateLimitWait r delay else delay)
         = waitAmended k t"
proof -
  have d: "min (backoffDelay k) 30000 = backoffDelay k"
    by (simp add: backoffDelay_def)
  show ?thesis
    using assms d
    by (auto simp: retriable_def waitAmended_def retryAfterSeconds_def rateLimitWait_def
        maxDelayMs_def Let_def parseInt10_empty split: transport.splits option.splits)
qed

lemma fetchLoop_retry:
  assumes "attempt < 2" "retriable (server attempt)" 
  shows "\<exists>e'. fetchLoop server attempt delay e slept =
     fetchLoop server (attempt + 1) (nextDelay delay) e'
       (slept @ [case server attempt of Rejects \<Rightarrow> delay
          | Resolves r \<Rightarrow> if status r = 429 then rateLimitWait r delay else delay])"
proof (cases "server attempt")
  case Rejects
  then show ?thesis
    using assms by (subst fetchLoop.simps) (auto simp: maxRetries_def)
next
  case (Resolves r)
  then show ?thesis
    using assms by (subst fetchLoop.simps) (auto simp: maxRetries_def retriable_def)
qed

lemma fetchLoop_return:
  assumes "attempt \<le> 2" "server attempt = Resolves r" "\<not> retriable (server attempt)" 
  shows "fetchLoop server attempt delay e slept =
     \<lparr>outcome = Inr r, attempts = attempt + 1, waits = slept\<rparr>"
  using assms by (subst fetchLoop.simps) (auto simp: maxRetries_def retriable_def)

lemma delays: "initialDelayMs = backoffDelay 0" "nextDelay (backoffDelay 0) = backoffDelay 1"
  by (simp_all add: initialDelayMs_def backoffDelay_def nextDelay_def backoffMultiplier_def
      maxDelayMs_def)

lemma fetch_first_retry:
  assumes "retriable (server 0)"
  shows "\<exists>e. fetchWithRetry server =
     fetchLoop server 1 (backoffDelay 1) e [waitAmended 0 (server 0)]"
  using fetchLoop_retry[of 0 server initialDelayMs None "[]"] assms
    codeWait[of "server 0" initialDelayMs 0]
  by (simp add: fetchWithRetry_def delays)

lemma fetch_second_retry:
  assumes "retriable (server 0)" "retriable (server 1)"
  shows "\<exists>e d. fetchWithRetry server =
     fetchLoop server 2 d e [waitAmended 0 (server 0), waitAmended 1 (server 1)]"
proof -
  from fetch_first_retry[of server, OF assms(1)] obtain e where
    "fetchWithRetry server = fetchLoop server 1 (backoffDelay 1) e [waitAmended 0 (server 0)]"
    by blast
  then show ?thesis
    using fetchLoop_retry[of 1 server "backoffDelay 1" e "[waitAmended 0 (server 0)]"] assms(2)
      codeWait[of "server 1" "backoffDelay 1" 1]
    by (simp del: One_nat_def) (metis one_add_one)
qed

subsection \<open>Rounding to a double\<close>


lemma pow2_powi: "pow2 e = 2 powi e"
  by (simp add: pow2_def power_int_def inverse_eq_divide power_one_over)

lemma pow2_pos: "0 < pow2 e"
  by (simp add: pow2_def)

lemma pow2_add: "pow2 (a + b) = pow2 a * pow2 b"
  by (simp add: pow2_powi power_int_add)

lemma pow2_Suc: "pow2 (e + 1) = 2 * pow2 e"
proof -
  have "pow2 1 = 2"
    by (simp add: pow2_def)
  then show ?thesis
    using pow2_add[of e 1] by simp
qed

lemma pow2_nat: "0 \<le> e \<Longrightarrow> pow2 e = 2 ^ nat e"
  by (simp add: pow2_def)

lemma pow2_neg: "pow2 (- e) = 1 / pow2 e"
  by (simp add: pow2_powi power_int_minus_divide)

lemma pow2_mono: "a \<le> b \<Longrightarrow> pow2 a \<le> pow2 b"
  by (simp add: pow2_powi power_int_increasing)

lemma pow2_less_exp: "pow2 a < pow2 b \<Longrightarrow> a < b"
  using pow2_mono[of b a] by (cases "a < b") auto

lemma exponent_ge1:
  fixes x :: rat
  assumes "1 \<le> x"
  shows "pow2 (bitlen \<lfloor>x\<rfloor> - 1) \<le> x \<and> x < pow2 (bitlen \<lfloor>x\<rfloor> - 1 + 1)"
proof -
  define n where "n = \<lfloor>x\<rfloor>"
  have n1: "1 \<le> n" unfolding n_def using assms by simp
  then have b: "2 ^ nat (bitlen n - 1) \<le> n" "n < 2 ^ nat (bitlen n)"
    using bitlen_bounds[of n] by auto
  have b1: "1 \<le> bitlen n"
    using n1 by (auto simp: bitlen_alt_def)
  have "pow2 (bitlen n - 1) = of_int (2 ^ nat (bitlen n - 1))"
    using b1 by (simp add: pow2_nat)
  also have "\<dots> \<le> of_int n"
    using b(1) by (simp only: of_int_le_iff)
  also have "\<dots> \<le> x"
    unfolding n_def by simp
  finally have lo: "pow2 (bitlen n - 1) \<le> x" .
  have "n + 1 \<le> 2 ^ nat (bitlen n)"
    using b(2) by simp
  then have "(of_int (n + 1) :: rat) \<le> of_int (2 ^ nat (bitlen n))"
    by (simp only: of_int_le_iff)
  moreover have "x < of_int (n + 1)"
    unfolding n_def by simp linarith
  moreover have "pow2 (bitlen n - 1 + 1) = of_int (2 ^ nat (bitlen n))"
    using b1 by (simp add: pow2_nat)
  ultimately have "x < pow2 (bitlen n - 1 + 1)"
    by simp
  then show ?thesis
    using lo unfolding n_def by simp
qed

lemma binaryExponent_bounds:
  assumes "x \<noteq> 0"
  shows "pow2 (binaryExponent x) \<le> \<bar>x\<bar> \<and> \<bar>x\<bar> < pow2 (binaryExponent x + 1)"
proof (cases "1 \<le> \<bar>x\<bar>")
  case True
  then show ?thesis
    using exponent_ge1[of "\<bar>x\<bar>"] by (simp add: binaryExponent_def)
next
  case False
  define y where "y = 1 / \<bar>x\<bar>"
  define b where "b = bitlen \<lfloor>y\<rfloor>"
  have xpos: "0 < \<bar>x\<bar>" using assms by simp
  have y1: "1 \<le> y"
    unfolding y_def using False xpos by (simp add: field_simps)
  have x: "\<bar>x\<bar> = 1 / y"
    unfolding y_def by simp
  have ypos: "0 < y" using y1 by linarith
  from exponent_ge1[OF y1] have lo: "pow2 (b - 1) \<le> y" and hi: "y < pow2 b"
    unfolding b_def by simp_all
  have up: "\<bar>x\<bar> \<le> pow2 (1 - b)"
  proof -
    have "1 / y \<le> 1 / pow2 (b - 1)"
      using lo pow2_pos[of "b - 1"] by (simp add: frac_le)
    also have "\<dots> = pow2 (1 - b)"
      using pow2_neg[of "b - 1"] by simp
    finally show ?thesis using x by simp
  qed
  have down: "pow2 (- b) < \<bar>x\<bar>"
  proof -
    have "1 / pow2 b < 1 / y"
      using hi ypos by (simp add: frac_less2)
    then show ?thesis
      using x pow2_neg[of b] by simp
  qed
  show ?thesis
  proof (cases "\<bar>x\<bar> = pow2 (1 - b)")
    case True
    then have e: "binaryExponent x = 1 - b"
      using False by (simp add: binaryExponent_def b_def y_def Let_def)
    have "pow2 (1 - b) < pow2 (1 - b + 1)"
      using pow2_pos[of "1 - b"] pow2_Suc[of "1 - b"] by linarith
    then show ?thesis
      unfolding e using True by simp
  next
    case ne: False
    then have e: "binaryExponent x = - b"
      using False by (simp add: binaryExponent_def b_def y_def Let_def)
    show ?thesis
      using up down ne e by (simp add: add.commute)
  qed
qed

lemma binaryExponent_less:
  assumes "x \<noteq> 0" "\<bar>x\<bar> < pow2 k"
  shows "binaryExponent x < k"
proof -
  have "pow2 (binaryExponent x) < pow2 k"
    using binaryExponent_bounds[OF assms(1)] assms(2) by linarith
  then show ?thesis by (rule pow2_less_exp)
qed

lemma roundTiesToEven_near:
  assumes "\<bar>t - of_int m\<bar> < 1 / 2"
  shows "roundTiesToEven t = m"
proof -
  consider (lo) "t < of_int m" | (hi) "of_int m \<le> t" by linarith
  then show ?thesis
  proof cases
    case lo
    then have f: "\<lfloor>t\<rfloor> = m - 1"
      using assms by (intro floor_unique) auto
    have "1 / 2 < t - of_int (m - 1)"
      using assms lo by auto
    then show ?thesis
      unfolding roundTiesToEven_def f Let_def by auto
  next
    case hi
    then have f: "\<lfloor>t\<rfloor> = m"
      using assms by (intro floor_unique) auto
    have "t - of_int m < 1 / 2"
      using assms hi by auto
    then show ?thesis
      unfolding roundTiesToEven_def f Let_def by auto
  qed
qed

lemma roundTiesToEven_error: "\<bar>of_int (roundTiesToEven t) - t\<bar> \<le> 1 / 2"
proof -
  define f where "f = \<lfloor>t\<rfloor>"
  have "of_int f \<le> t" "t < of_int f + 1"
    unfolding f_def by linarith+
  then show ?thesis
    unfolding roundTiesToEven_def f_def[symmetric] Let_def
    by (auto simp: abs_if)
qed

lemma roundToDouble_exact:
  assumes "x \<noteq> 0" "\<bar>x - of_int m * pow2 (binaryExponent x - 52)\<bar> < pow2 (binaryExponent x - 52) / 2"
  shows "roundToDouble x = of_int m * pow2 (binaryExponent x - 52)"
proof -
  define u where "u = pow2 (binaryExponent x - 52)"
  have u: "0 < u" unfolding u_def by (rule pow2_pos)
  have "\<bar>x / u - of_int m\<bar> = \<bar>x - of_int m * u\<bar> / u"
    using u by (simp add: field_simps abs_if)
  also have "\<dots> < (u / 2) / u"
    using assms(2) u unfolding u_def[symmetric] by (simp add: divide_strict_right_mono)
  finally have "\<bar>x / u - of_int m\<bar> < 1 / 2"
    using u by simp
  then have "roundTiesToEven (x / u) = m"
    by (rule roundTiesToEven_near)
  then show ?thesis
    using assms(1) unfolding roundToDouble_def u_def[symmetric] Let_def by simp
qed

lemma roundToDouble_error:
  assumes "x \<noteq> 0"
  shows "\<bar>roundToDouble x - x\<bar> \<le> pow2 (binaryExponent x - 52) / 2"
proof -
  define u where "u = pow2 (binaryExponent x - 52)"
  have u: "0 < u" unfolding u_def by (rule pow2_pos)
  have "\<bar>of_int (roundTiesToEven (x / u)) * u - x\<bar> = \<bar>of_int (roundTiesToEven (x / u)) - x / u\<bar> * u"
    using u by (simp add: field_simps abs_if)
  also have "\<dots> \<le> (1 / 2) * u"
    using roundTiesToEven_error[of "x / u"] u by (intro mult_right_mono) auto
  finally show ?thesis
    using assms unfolding roundToDouble_def u_def[symmetric] Let_def by simp
qed

lemma ulp_le:
  assumes "x \<noteq> 0"
  shows "pow2 (binaryExponent x - 52) \<le> \<bar>x\<bar> / 2 ^ 52"
    and "\<bar>x\<bar> / 2 ^ 53 < pow2 (binaryExponent x - 52)"
proof -
  have p: "pow2 (binaryExponent x - 52) = pow2 (binaryExponent x) / 2 ^ 52"
    using pow2_add[of "binaryExponent x" "- 52"] by (simp add: pow2_def)
  show "pow2 (binaryExponent x - 52) \<le> \<bar>x\<bar> / 2 ^ 52"
    unfolding p using binaryExponent_bounds[OF assms] by (simp add: divide_right_mono)
  have "\<bar>x\<bar> < 2 * pow2 (binaryExponent x)"
    using binaryExponent_bounds[OF assms] by (simp add: pow2_Suc)
  then show "\<bar>x\<bar> / 2 ^ 53 < pow2 (binaryExponent x - 52)"
    unfolding p by (simp add: field_simps)
qed



lemma roundToDouble_int:
  assumes "\<bar>n\<bar> < 2 ^ 53"
  shows "roundToDouble (of_int n) = of_int n"
proof (cases "n = 0")
  case True
  then show ?thesis by (simp add: roundToDouble_def)
next
  case False
  define x :: rat where "x = of_int n"
  define e where "e = binaryExponent x"
  have x0: "x \<noteq> 0" using False by (simp add: x_def)
  have "\<bar>x\<bar> = of_int \<bar>n\<bar>" by (simp add: x_def)
  also have "\<dots> < of_int (2 ^ 53)"
    using assms by (simp only: of_int_less_iff)
  also have "\<dots> = pow2 53" by (simp add: pow2_def)
  finally have "e < 53"
    unfolding e_def using binaryExponent_less[OF x0] by blast
  then have k: "0 \<le> 52 - e" by simp
  have u: "pow2 (e - 52) = 1 / 2 ^ nat (52 - e)"
    using pow2_neg[of "52 - e"] k by (simp add: pow2_nat)
  have "of_int (n * 2 ^ nat (52 - e)) * pow2 (e - 52) = x"
    unfolding u x_def by simp
  then have "\<bar>x - of_int (n * 2 ^ nat (52 - e)) * pow2 (binaryExponent x - 52)\<bar>
      < pow2 (binaryExponent x - 52) / 2"
    using pow2_pos[of "e - 52"] unfolding e_def by simp
  from roundToDouble_exact[OF x0 this] show ?thesis
    using \<open>of_int (n * 2 ^ nat (52 - e)) * pow2 (e - 52) = x\<close>
    unfolding e_def x_def by simp
qed

lemma roundToDouble_half:
  assumes y0: "y \<noteq> 0" and small: "\<bar>y\<bar> < 2 ^ 52"
    and close: "\<bar>y - (of_int k - 1 / 2)\<bar> < \<bar>y\<bar> / 2 ^ 54"
  shows "roundToDouble y = of_int k - 1 / 2"
proof -
  define e where "e = binaryExponent y"
  have "\<bar>y\<bar> < pow2 52" using small by (simp add: pow2_def)
  then have "e < 52"
    unfolding e_def using binaryExponent_less[OF y0] by blast
  then have k: "0 \<le> 51 - e" by simp
  have "pow2 (e - 52) = pow2 (- (51 - e)) * pow2 (- 1)"
    using pow2_add[of "- (51 - e)" "- 1"] by simp
  also have "\<dots> = 1 / 2 ^ nat (51 - e) / 2"
    using pow2_neg[of "51 - e"] k by (simp add: pow2_nat) (simp add: pow2_def)
  finally have u: "pow2 (e - 52) = 1 / 2 ^ nat (51 - e) / 2" .
  have m: "of_int ((2 * k - 1) * 2 ^ nat (51 - e)) * pow2 (e - 52) = of_int k - 1 / 2"
    unfolding u by (simp add: field_simps)
  have "\<bar>y\<bar> / 2 ^ 54 = (\<bar>y\<bar> / 2 ^ 53) / 2" by simp
  also have "\<dots> < pow2 (e - 52) / 2"
    using ulp_le(2)[OF y0] unfolding e_def by simp
  finally have "\<bar>y - (of_int k - 1 / 2)\<bar> < pow2 (e - 52) / 2"
    using close by linarith
  then have "\<bar>y - of_int ((2 * k - 1) * 2 ^ nat (51 - e)) * pow2 (binaryExponent y - 52)\<bar>
      < pow2 (binaryExponent y - 52) / 2"
    using m unfolding e_def by simp
  from roundToDouble_exact[OF y0 this] show ?thesis
    using m unfolding e_def by simp
qed

lemma roundToDouble_relative:
  assumes "y \<noteq> 0"
  shows "\<bar>roundToDouble y - y\<bar> \<le> \<bar>y\<bar> / 2 ^ 53"
proof -
  have "pow2 (binaryExponent y - 52) / 2 \<le> (\<bar>y\<bar> / 2 ^ 52) / 2"
    using ulp_le(1)[OF assms] by simp
  then show ?thesis
    using roundToDouble_error[OF assms] by simp
qed

lemma mathRound_between:
  assumes "of_int k \<le> w + 1 / 2" "w + 1 / 2 < of_int k + 1"
  shows "mathRound w = of_int k"
proof -
  have "\<lfloor>w + 1 / 2\<rfloor> = k"
    using assms by (intro floor_unique) auto
  then show ?thesis by (simp add: mathRound_def)
qed

subsubsection \<open>Rounding a product with a decimal constant \<open>N / D\<close>, \<open>D\<close> even\<close>

lemma mathRound_product:
  fixes x N D :: int and c :: rat
  assumes D: "0 < D" "even D"
    and x0: "x \<noteq> 0"
    and c: "0 < c"
    and small: "\<bar>of_int x * c\<bar> < 2 ^ 52"
    and tie: "\<bar>of_int x * c - of_int x * (of_int N / of_int D)\<bar> < \<bar>of_int x * c\<bar> / 2 ^ 54"
    and err: "\<bar>of_int x * c - of_int x * (of_int N / of_int D)\<bar> + \<bar>of_int x * c\<bar> / 2 ^ 53
                < 1 / of_int D"
  shows "mathRound (roundToDouble (of_int x * c)) = of_int ((N * x + D div 2) div D)"
proof -
  define y where "y = of_int x * c"
  define z :: rat where "z = of_int x * (of_int N / of_int D)"
  define A where "A = N * x + D div 2"
  define k where "k = A div D"
  have y0: "y \<noteq> 0" using x0 c by (simp add: y_def)
  have D2: "2 * (D div 2) = D" using D(2) by simp
  have Dr: "(of_int D :: rat) > 0" using D(1) by simp
  have "of_int A = of_int (N * x) + (of_int (2 * (D div 2)) :: rat) / 2"
    unfolding A_def by simp
  then have e1: "of_int A = of_int N * of_int x + (of_int D :: rat) / 2"
    unfolding D2 by simp
  have "z + 1 / 2 = (of_int N * of_int x + (of_int D :: rat) / 2) / of_int D"
    unfolding z_def using Dr by (simp add: field_simps)
  then have zA: "z + 1 / 2 = of_int A / of_int D"
    by (simp only: e1)
  have A: "A = k * D + A mod D" unfolding k_def by simp
  show ?thesis
  proof (cases "A mod D = 0")
    case True
    then have "of_int A = (of_int k :: rat) * of_int D"
      using A by (metis add.right_neutral of_int_mult)
    then have z: "z = of_int k - 1 / 2"
      using zA Dr by (simp add: field_simps)
    have "roundToDouble y = of_int k - 1 / 2"
      using roundToDouble_half[OF y0, of k] small tie unfolding y_def[symmetric] z_def[symmetric] z
      by simp
    then show ?thesis
      unfolding y_def[symmetric] A_def[symmetric] k_def[symmetric]
      by (simp add: mathRound_def)
  next
    case False
    define j where "j = A mod D"
    have j: "1 \<le> j" "j \<le> D - 1"
      using False D(1) pos_mod_sign[of D A] pos_mod_bound[of D A] unfolding j_def by linarith+
    have "of_int A = (of_int k :: rat) * of_int D + of_int j"
      using A unfolding j_def by (metis of_int_add of_int_mult)
    then have zk: "z + 1 / 2 = of_int k + of_int j / of_int D"
      using zA Dr by (simp add: field_simps)
    have j1: "1 / of_int D \<le> (of_int j :: rat) / of_int D"
      using j(1) Dr by (simp add: divide_right_mono)
    have "(of_int j :: rat) \<le> of_int D - 1"
      using j(2) by (metis of_int_1 of_int_diff of_int_le_iff)
    then have "(of_int j :: rat) / of_int D \<le> (of_int D - 1) / of_int D"
      using Dr by (simp add: divide_right_mono)
    also have "\<dots> = 1 - 1 / of_int D"
      using Dr by (simp add: field_simps)
    finally have j2: "(of_int j :: rat) / of_int D \<le> 1 - 1 / of_int D" .
    have "\<bar>roundToDouble y - z\<bar> \<le> \<bar>roundToDouble y - y\<bar> + \<bar>y - z\<bar>"
      by linarith
    also have "\<dots> \<le> \<bar>y\<bar> / 2 ^ 53 + \<bar>y - z\<bar>"
      using roundToDouble_relative[OF y0] by linarith
    also have "\<dots> < 1 / of_int D"
      using err unfolding y_def z_def by linarith
    finally have near: "\<bar>roundToDouble y - z\<bar> < 1 / of_int D" .
    have "mathRound (roundToDouble y) = of_int k"
      using near zk j1 j2 by (intro mathRound_between) linarith+
    then show ?thesis
      unfolding y_def[symmetric] A_def[symmetric] k_def[symmetric] .
  qed
qed



lemma mathRound_product_bounded:
  fixes x N D B :: int and c :: rat
  assumes D: "0 < D" "even D"
    and c: "0 < c"
    and small: "of_int B * c < 2 ^ 52"
    and tie: "\<bar>c - of_int N / of_int D\<bar> < c / 2 ^ 54"
    and err: "of_int B * (\<bar>c - of_int N / of_int D\<bar> + c / 2 ^ 53) < 1 / of_int D"
    and x: "\<bar>x\<bar> \<le> B"
  shows "mathRound (roundToDouble (of_int x * c)) = of_int ((N * x + D div 2) div D)"
proof (cases "x = 0")
  case True
  have "D div 2 < D" using D(1) by simp
  then have "(D div 2) div D = 0"
    using D(1) by (simp add: div_pos_pos_trivial)
  moreover have "mathRound 0 = 0"
    by code_simp
  ultimately show ?thesis
    using True by (simp add: roundToDouble_def)
next
  case False
  define a :: rat where "a = \<bar>of_int x\<bar>"
  define d where "d = \<bar>c - of_int N / of_int D\<bar>"
  have a: "0 < a" "a \<le> of_int B"
    using False x unfolding a_def by (simp_all add: of_int_abs[symmetric] del: of_int_abs)
  have ac: "\<bar>of_int x * c\<bar> = a * c"
    using c by (simp add: a_def abs_mult)
  have ad: "\<bar>of_int x * c - of_int x * (of_int N / of_int D)\<bar> = a * d"
    unfolding a_def d_def by (simp add: abs_mult[symmetric] right_diff_distrib)
  have "a * c \<le> of_int B * c"
    using a(2) c by (simp add: mult_right_mono)
  then have h1: "\<bar>of_int x * c\<bar> < 2 ^ 52"
    using small ac by linarith
  have "a * d < a * (c / 2 ^ 54)"
    using tie a(1) unfolding d_def[symmetric] by (rule mult_strict_left_mono)
  then have h2: "\<bar>of_int x * c - of_int x * (of_int N / of_int D)\<bar> < \<bar>of_int x * c\<bar> / 2 ^ 54"
    using ad ac by simp
  have "0 \<le> d + c / 2 ^ 53"
    using c unfolding d_def by simp
  then have "a * (d + c / 2 ^ 53) \<le> of_int B * (d + c / 2 ^ 53)"
    using a(2) by (simp add: mult_right_mono)
  then have "a * d + a * c / 2 ^ 53 < 1 / of_int D"
    using err unfolding d_def[symmetric] by (simp add: distrib_left)
  then have h3: "\<bar>of_int x * c - of_int x * (of_int N / of_int D)\<bar> + \<bar>of_int x * c\<bar> / 2 ^ 53
                < 1 / of_int D"
    using ad ac by simp
  show ?thesis
    using D False c h1 h2 h3 by (rule mathRound_product)
qed

lemma literal15: "literal (15 / 100) = 5404319552844595 / 36028797018963968"
  by code_simp

lemma literal13: "literal (13 / 100) = 1170935903116329 / 9007199254740992"
  by code_simp

lemma roundHalfUp_fraction:
  assumes "0 < D" "even D"
  shows "roundHalfUp (of_int x * (of_int N / of_int D)) = (N * x + D div 2) div D"
proof -
  have "2 * (D div 2) = D" using assms(2) by simp
  then have "(of_int D :: rat) / 2 = of_int (D div 2)"
    by (metis nonzero_mult_div_cancel_left of_int_mult of_int_numeral zero_neq_numeral)
  then have "(of_int x :: rat) * (of_int N / of_int D) + 1 / 2 = of_int (N * x + D div 2) / of_int D"
    using assms(1) by (simp add: field_simps)
  then show ?thesis
    unfolding roundHalfUp_def by (simp only: floor_divide_of_int_eq)
qed

lemma referral_exact:
  assumes "\<bar>x\<bar> \<le> 10 ^ 12"
  shows "mathRound (jsMul (of_int x) (literal (15 / 100))) = of_int (referralFeeStated x)"
proof -
  have "mathRound (roundToDouble (of_int x * (5404319552844595 / 36028797018963968)))
      = of_int ((3 * x + 20 div 2) div 20)"
    by (rule mathRound_product_bounded[where B = "10 ^ 12"]) (use assms in simp_all)
  moreover have "referralFeeStated x = (3 * x + 20 div 2) div 20"
    using roundHalfUp_fraction[of 20 x 3] unfolding referralFeeStated_def by simp
  ultimately show ?thesis
    unfolding jsMul_def literal15 by simp
qed

lemma marketplace_exact:
  assumes "\<bar>x\<bar> \<le> 10 ^ 12"
  shows "ebayFee (of_int x) = of_int (marketplaceFeeStated x)"
proof -
  have "mathRound (roundToDouble (of_int x * (1170935903116329 / 9007199254740992)))
      = of_int ((13 * x + 100 div 2) div 100)"
    by (rule mathRound_product_bounded[where B = "10 ^ 12"]) (use assms in simp_all)
  moreover have "marketplaceFeeStated x = (13 * x + 100 div 2) div 100"
    using roundHalfUp_fraction[of 100 x 13] unfolding marketplaceFeeStated_def by simp
  ultimately show ?thesis
    unfolding ebayFee_def jsMul_def literal13 by simp
qed



lemma jsAdd_int: "\<bar>a + b\<bar> < 2 ^ 53 \<Longrightarrow> jsAdd (of_int a) (of_int b) = of_int (a + b)"
  using roundToDouble_int[of "a + b"] by (simp add: jsAdd_def)

lemma jsSub_int: "\<bar>a - b\<bar> < 2 ^ 53 \<Longrightarrow> jsSub (of_int a) (of_int b) = of_int (a - b)"
  using roundToDouble_int[of "a - b"] by (simp add: jsSub_def)

lemma referralFeeStated_div: "referralFeeStated x = (3 * x + 10) div 20"
  using roundHalfUp_fraction[of 20 x 3] unfolding referralFeeStated_def by simp

lemma marketplaceFeeStated_div: "marketplaceFeeStated x = (13 * x + 50) div 100"
  using roundHalfUp_fraction[of 100 x 13] unfolding marketplaceFeeStated_def by simp

lemma fee_bounds:
  assumes "\<bar>x\<bar> \<le> 10 ^ 12"
  shows "\<bar>referralFeeStated x\<bar> \<le> 10 ^ 12" "\<bar>marketplaceFeeStated x\<bar> \<le> 10 ^ 12"
  using assms unfolding referralFeeStated_div marketplaceFeeStated_div by simp_all

lemma mathRound_zero: "mathRound 0 = 0"
  by code_simp

lemma roiDouble_near:
  assumes c: "0 < c" and p: "\<bar>p\<bar> \<le> 5 * 10 ^ 12"
  shows "((200 * p + c) mod (2 * c) \<noteq> 0 \<longrightarrow> roiDouble p c = of_int (roiStated p c))
       \<and> (roiDouble p c = of_int (roiStated p c) \<or> roiDouble p c = of_int (roiStated p c - 1))"
proof (cases "p = 0")
  case True
  have "\<lfloor>(1 :: rat) / 2\<rfloor> = 0"
    by (rule floor_unique) simp_all
  then have "roiStated 0 c = 0"
    using c by (simp add: roiStated_def roundHalfUp_def)
  then show ?thesis
    using True c by (simp add: roiDouble_def roundToDouble_def mathRound_zero)
next
  case False
  define q :: rat where "q = of_int p / of_int c"
  define q1 where "q1 = roundToDouble q"
  define y where "y = q1 * 100"
  define q2 where "q2 = roundToDouble y"
  define A where "A = 200 * p + c"
  define D where "D = 2 * c"
  define k where "k = A div D"
  define j where "j = A mod D"
  have cr: "(0 :: rat) < of_int c" using c by simp
  have Dr: "(0 :: rat) < of_int D" using c by (simp add: D_def)
  have q0: "q \<noteq> 0" using False c by (simp add: q_def)
  have e1: "\<bar>q1 - q\<bar> \<le> \<bar>q\<bar> / 2 ^ 53"
    unfolding q1_def by (rule roundToDouble_relative[OF q0])
  have "\<bar>q\<bar> / 2 ^ 53 < \<bar>q\<bar>"
    using q0 by (simp add: field_simps)
  then have q10: "q1 \<noteq> 0" and q1b: "\<bar>q1\<bar> \<le> 2 * \<bar>q\<bar>"
    using e1 by (auto simp: abs_if split: if_splits)
  have y0: "y \<noteq> 0" using q10 by (simp add: y_def)
  have e2: "\<bar>q2 - y\<bar> \<le> \<bar>y\<bar> / 2 ^ 53"
    unfolding q2_def by (rule roundToDouble_relative[OF y0])
  have yb: "\<bar>y\<bar> \<le> 200 * \<bar>q\<bar>"
    using q1b by (simp add: y_def abs_mult)
  have "\<bar>q2 - 100 * q\<bar> \<le> \<bar>q2 - y\<bar> + 100 * \<bar>q1 - q\<bar>"
    unfolding y_def by (simp add: abs_if split: if_splits)
  also have "\<dots> \<le> 200 * \<bar>q\<bar> / 2 ^ 53 + 100 * (\<bar>q\<bar> / 2 ^ 53)"
    using e1 e2 yb by (simp add: field_simps)
  also have "\<dots> = 300 * \<bar>q\<bar> / 2 ^ 53"
    by simp
  finally have e3: "\<bar>q2 - 100 * q\<bar> \<le> 300 * \<bar>q\<bar> / 2 ^ 53" .
  define a :: rat where "a = of_int \<bar>p\<bar>"
  have qa: "\<bar>q\<bar> = a / of_int c"
    using c by (simp add: q_def a_def abs_divide)
  have "a \<le> of_int (5 * 10 ^ 12)"
    unfolding a_def using p by (simp only: of_int_le_iff)
  then have s1: "300 * a / 2 ^ 53 < 1 / 2"
    by simp
  have "300 * \<bar>q\<bar> / 2 ^ 53 = (300 * a / 2 ^ 53) / of_int c"
    by (simp add: qa)
  also have "\<dots> < (1 / 2) / of_int c"
    using s1 cr by (rule divide_strict_right_mono)
  also have "\<dots> = 1 / of_int D"
    by (simp add: D_def)
  finally have near: "\<bar>q2 - 100 * q\<bar> < 1 / of_int D"
    using e3 by linarith
  have "100 * q + 1 / 2 = of_int A / of_int D"
    using cr by (simp add: q_def A_def D_def field_simps)
  moreover have "of_int A = (of_int k :: rat) * of_int D + of_int j"
    unfolding k_def j_def by (metis div_mult_mod_eq of_int_add of_int_mult)
  ultimately have zk: "100 * q + 1 / 2 = of_int k + of_int j / of_int D"
    using Dr by (simp add: field_simps)
  have st: "roiStated p c = k"
  proof -
    have "of_int p / of_int c * 100 + 1 / 2 = (of_int A :: rat) / of_int D"
      using cr by (simp add: A_def D_def field_simps)
    then show ?thesis
      using c unfolding roiStated_def roundHalfUp_def k_def
      by (simp only: floor_divide_of_int_eq if_True)
  qed
  have code: "roiDouble p c = mathRound q2"
    using c by (simp add: roiDouble_def q2_def y_def q1_def q_def)
  have jb: "0 \<le> j" "j \<le> D - 1"
    using c pos_mod_sign[of D A] pos_mod_bound[of D A] unfolding j_def D_def by linarith+
  have jD: "(of_int j :: rat) / of_int D \<le> 1 - 1 / of_int D"
  proof -
    have "(of_int j :: rat) \<le> of_int D - 1"
      using jb(2) by (metis of_int_1 of_int_diff of_int_le_iff)
    then have "(of_int j :: rat) / of_int D \<le> (of_int D - 1) / of_int D"
      using Dr by (simp add: divide_right_mono)
    also have "\<dots> = 1 - 1 / of_int D"
      using Dr by (simp add: field_simps)
    finally show ?thesis .
  qed
  have Dinv: "(1 :: rat) / of_int D \<le> 1"
    using c by (simp add: D_def)
  have part1: "roiDouble p c = of_int (roiStated p c)" if "j \<noteq> 0"
  proof -
    have "1 \<le> j" using that jb(1) by linarith
    then have "1 / of_int D \<le> (of_int j :: rat) / of_int D"
      using Dr by (simp add: divide_right_mono)
    then have "mathRound q2 = of_int k"
      using near zk jD by (intro mathRound_between) linarith+
    then show ?thesis
      using code st by simp
  qed
  have part2: "roiDouble p c = of_int (roiStated p c) \<or> roiDouble p c = of_int (roiStated p c - 1)"
  proof (cases "j = 0")
    case False
    then show ?thesis using part1 by simp
  next
    case True
    then have zk0: "100 * q + 1 / 2 = of_int k"
      using zk by simp
    show ?thesis
    proof (cases "of_int k \<le> q2 + 1 / 2")
      case True
      then have "mathRound q2 = of_int k"
        using near zk0 Dinv by (intro mathRound_between) linarith+
      then show ?thesis using code st by simp
    next
      case False
      have km: "(of_int (k - 1) :: rat) = of_int k - 1"
        by simp
      have lo: "(of_int (k - 1) :: rat) \<le> q2 + 1 / 2"
        unfolding km using near zk0 Dinv by linarith
      have hi: "q2 + 1 / 2 < (of_int (k - 1) :: rat) + 1"
        unfolding km using False by linarith
      have "mathRound q2 = of_int (k - 1)"
        using lo hi by (rule mathRound_between)
      then show ?thesis using code st by simp
    qed
  qed
  show ?thesis
    using part1 part2 unfolding j_def A_def D_def by blast
qed



lemma jsSub_chain:
  assumes "\<bar>a\<bar> \<le> 10 ^ 12" "\<bar>b\<bar> \<le> 10 ^ 12" "\<bar>f\<bar> \<le> 1000" "\<bar>g\<bar> \<le> 1000"
    "\<bar>t\<bar> \<le> 2 * 10 ^ 12"
  shows "jsSub (jsSub (jsSub (jsSub (of_int a) (of_int b)) (of_int f)) (of_int g)) (of_int t)
     = of_int (a - b - f - g - t)"
proof -
  have 1: "jsSub (of_int a) (of_int b) = of_int (a - b)"
    by (intro jsSub_int) (use assms in simp)
  have 2: "jsSub (of_int (a - b)) (of_int f) = of_int (a - b - f)"
    by (intro jsSub_int) (use assms in simp)
  have 3: "jsSub (of_int (a - b - f)) (of_int g) = of_int (a - b - f - g)"
    by (intro jsSub_int) (use assms in simp)
  have 4: "jsSub (of_int (a - b - f - g)) (of_int t) = of_int (a - b - f - g - t)"
    by (intro jsSub_int) (use assms in simp)
  show ?thesis
    by (simp only: 1 2 3 4)
qed

lemma calculateFees_exact:
  assumes buy: "\<bar>buy\<bar> \<le> 10 ^ 12" and sell: "\<bar>sell\<bar> \<le> 10 ^ 12"
  shows "ebayFee (of_int buy) = of_int (marketplaceFeeStated buy)"
    and "totalEbayCost (of_int buy) = of_int (totalCostStated buy)"
    and "calculateFees (of_int buy) (of_int sell) =
      \<lparr>fbaProfit = of_int (platformProfitStated buy sell),
       fbmProfit = of_int (merchantProfitStated buy sell),
       fbaRoi = roiDouble (platformProfitStated buy sell) (totalCostStated buy),
       fbmRoi = roiDouble (merchantProfitStated buy sell) (totalCostStated buy),
       referralFee = of_int (referralFeeStated sell),
       fulfillmentFee = 354\<rparr>"
proof -
  show fee: "ebayFee (of_int buy) = of_int (marketplaceFeeStated buy)"
    using buy by (rule marketplace_exact)
  have "\<bar>buy + marketplaceFeeStated buy\<bar> < 2 ^ 53"
    using buy fee_bounds(2)[OF buy] by simp
  then show total: "totalEbayCost (of_int buy) = of_int (totalCostStated buy)"
    unfolding totalEbayCost_def fee totalCostStated_def by (rule jsAdd_int)
  have tb: "\<bar>totalCostStated buy\<bar> \<le> 2 * 10 ^ 12"
    using buy fee_bounds(2)[OF buy] unfolding totalCostStated_def by simp
  have ref: "mathRound (jsMul (of_int sell) (literal (15 / 100))) = of_int (referralFeeStated sell)"
    using sell by (rule referral_exact)
  have fba: "jsSub (jsSub (jsSub (jsSub (of_int sell) (of_int (referralFeeStated sell)))
      (of_int 354)) (of_int 50)) (of_int (totalCostStated buy))
      = of_int (platformProfitStated buy sell)"
    unfolding platformProfitStated_def
    using sell fee_bounds(1)[OF sell] tb by (intro jsSub_chain) simp_all
  have fbm: "jsSub (jsSub (jsSub (jsSub (of_int sell) (of_int (referralFeeStated sell)))
      (of_int 180)) (of_int 399)) (of_int (totalCostStated buy))
      = of_int (merchantProfitStated buy sell)"
    unfolding merchantProfitStated_def
    using sell fee_bounds(1)[OF sell] tb by (intro jsSub_chain) simp_all
  show "calculateFees (of_int buy) (of_int sell) =
      \<lparr>fbaProfit = of_int (platformProfitStated buy sell),
       fbmProfit = of_int (merchantProfitStated buy sell),
       fbaRoi = roiDouble (platformProfitStated buy sell) (totalCostStated buy),
       fbmRoi = roiDouble (merchantProfitStated buy sell) (totalCostStated buy),
       referralFee = of_int (referralFeeStated sell),
       fulfillmentFee = 354\<rparr>"
    unfolding calculateFees_def Let_def ref total
    using fba fbm by (simp add: roiDouble_def jsMul_def jsDiv_def)
qed

lemma profit_bounds:
  assumes buy: "\<bar>buy\<bar> \<le> 10 ^ 12" and sell: "\<bar>sell\<bar> \<le> 10 ^ 12"
  shows "\<bar>platformProfitStated buy sell\<bar> \<le> 5 * 10 ^ 12"
    "\<bar>merchantProfitStated buy sell\<bar> \<le> 5 * 10 ^ 12"
  using buy sell fee_bounds(1)[OF sell] fee_bounds(2)[OF buy]
  unfolding platformProfitStated_def merchantProfitStated_def totalCostStated_def
  by simp_all

lemma roiDouble_stated:
  assumes p: "\<bar>p\<bar> \<le> 5 * 10 ^ 12"
  shows "((200 * p + c) mod (2 * c) \<noteq> 0 \<longrightarrow> roiDouble p c = of_int (roiStated p c))
       \<and> (roiDouble p c = of_int (roiStated p c) \<or> roiDouble p c = of_int (roiStated p c - 1))"
proof (cases "0 < c")
  case True
  then show ?thesis using p by (rule roiDouble_near)
next
  case False
  then show ?thesis by (simp add: roiDouble_def roiStated_def)
qed

subsection \<open>Fields of the parsed product\<close>

lemma getLatestValue_lastEntry: "getLatestValue series = noDataIfNegative (lastEntry series)"
proof (cases series)
  case None
  then show ?thesis
    by (simp add: getLatestValue_def lastEntry_def noDataIfNegative_def)
next
  case (Some xs)
  show ?thesis
  proof (cases "length xs < 2")
    case True
    then show ?thesis
      using Some by (simp add: getLatestValue_def lastEntry_def noDataIfNegative_def)
  next
    case False
    then have "xs \<noteq> []" by auto
    then have "xs ! (length xs - 1) = last xs"
      by (simp add: last_conv_nth)
    then show ?thesis
      using Some False
      by (simp add: getLatestValue_def lastEntry_def noDataIfNegative_def Let_def)
  qed
qed

lemma keepaPriceToCents_noData: "keepaPriceToCents v = noDataIfNegative v"
  by (simp add: keepaPriceToCents_def noDataIfNegative_def)

lemma noDataIfNegative_idem: "noDataIfNegative (noDataIfNegative v) = noDataIfNegative v"
  by (simp add: noDataIfNegative_def split: option.splits)

lemma noDataIfNegative_nonneg: "nullOrAtLeast 0 (noDataIfNegative v)"
  by (simp add: noDataIfNegative_def nullOrAtLeast_def split: option.splits)

lemma noDataIfNegative_negative: "v = Some x \<Longrightarrow> x < 0 \<Longrightarrow> noDataIfNegative v = None"
  by (simp add: noDataIfNegative_def)

lemma price_snapshot:
  "keepaPriceToCents (orElse (currentAt raw i) (getLatestValue (csvAt raw i)))
     = noDataIfNegative (snapshotOrLatest raw i)"
proof (cases "currentAt raw i")
  case None
  then show ?thesis
    by (simp add: orElse_def snapshotOrLatest_def keepaPriceToCents_noData
        getLatestValue_lastEntry noDataIfNegative_idem)
next
  case (Some v)
  then show ?thesis
    by (simp add: orElse_def snapshotOrLatest_def keepaPriceToCents_noData)
qed

lemma rating_snapshot:
  "(case orElse (currentAt raw i) (getLatestValue (csvAt raw i)) of
      None \<Rightarrow> None | Some r \<Rightarrow> if r \<ge> 0 then Some r else None)
     = noDataIfNegative (snapshotOrLatest raw i)"
proof -
  have "(case v of None \<Rightarrow> None | Some r \<Rightarrow> if r \<ge> 0 then Some r else None)
          = keepaPriceToCents v" for v :: "rat option"
    by (auto simp: keepaPriceToCents_def split: option.splits)
  then show ?thesis
    by (simp only: price_snapshot)
qed

lemma count_read:
  "max 0 (orDefault (orElse (statsField raw f) (currentAt raw i)) 0)
     = clampedCount (countRead raw f i)"
  by (simp add: orDefault_def orElse_def clampedCount_def countRead_def split: option.splits)

lemma reviews_read:
  "max 0 (orDefault (orElse (currentAt raw i) (getLatestValue (csvAt raw i))) 0)
     = clampedCount (snapshotOrLatest raw i)"
proof (cases "currentAt raw i")
  case None
  then show ?thesis
    by (simp add: orElse_def orDefault_def snapshotOrLatest_def getLatestValue_lastEntry
        noDataIfNegative_def clampedCount_def split: option.splits)
next
  case (Some v)
  then show ?thesis
    by (simp add: orElse_def orDefault_def snapshotOrLatest_def clampedCount_def)
qed

lemma parse_fields:
  "newOfferCount (parseKeepaProduct now dayOf raw)
     = clampedCount (countRead raw offerCountNew COUNT_NEW)"
  "usedOfferCount (parseKeepaProduct now dayOf raw)
     = clampedCount (countRead raw offerCountUsed COUNT_USED)"
  "fbaOfferCount (parseKeepaProduct now dayOf raw)
     = clampedCount (countRead raw offerCountFBA COUNT_NEW_FBA)"
  "reviewCount (parseKeepaProduct now dayOf raw)
     = clampedCount (snapshotOrLatest raw COUNT_REVIEWS)"
  "buyBoxPrice (parseKeepaProduct now dayOf raw)
     = positiveOrNull (statsField raw statsBuyBoxPrice)"
  "amazonPrice (parseKeepaProduct now dayOf raw) = noDataIfNegative (snapshotOrLatest raw AMAZON)"
  "newPrice (parseKeepaProduct now dayOf raw) = noDataIfNegative (snapshotOrLatest raw NEW)"
  "usedPrice (parseKeepaProduct now dayOf raw) = noDataIfNegative (snapshotOrLatest raw USED)"
  "newFbaPrice (parseKeepaProduct now dayOf raw)
     = noDataIfNegative (snapshotOrLatest raw NEW_FBA)"
  "avgPrice90 (parseKeepaProduct now dayOf raw) = noDataIfNegative (statsArrayAt raw avg90 NEW)"
  "salesRank (parseKeepaProduct now dayOf raw)
     = noDataIfNegative (lastEntry (csvAt raw SALES_RANK))"
  "rating (parseKeepaProduct now dayOf raw) = noDataIfNegative (snapshotOrLatest raw RATING)"
  "outOfStockPercentage90 (parseKeepaProduct now dayOf raw)
     = percentageOrNull (statsField raw statsOutOfStockPercentage90)"
  unfolding parseKeepaProduct_def Let_def price_snapshot rating_snapshot count_read reviews_read
  by (simp_all add: keepaPriceToCents_noData getLatestValue_lastEntry positiveOrNull_def
      percentageOrNull_def)
subsection \<open>Calls while a fetch is in flight\<close>








subsection \<open>The lock between the steps\<close>



section \<open>The claims\<close>

subsection \<open>Knockout rules and score of \<open>makeDecision\<close>\<close>

text \<open>
  Claim C2. The five knockout rules come before any scoring and in the order profit below 300,
  ROI below 30, sales rank known and above 3,000,000, 30-day sales drops known and below 2,
  first-party seller: when the first rule that matches has reason \<open>rsn\<close>, the result is REJECT
  with score 0 and the reason \<open>rsn\<close>, whatever the later rules and the offer count say; when no
  rule matches, the reason is one of the three reasons of the scoring stage. A call with
  profit 250 is rejected for its profit, whatever the other arguments.
\<close>

theorem makeDecision_knockout_precedence:
  "(firstKnockout profit roi rank drops firstParty = Some rsn \<longrightarrow>
      makeDecision profit roi rank drops offers firstParty
        = \<lparr>decision = REJECT, reason = rsn, score = 0\<rparr>)
   \<and> (firstKnockout profit roi rank drops firstParty = None \<longrightarrow>
      reason (makeDecision profit roi rank drops offers firstParty)
        \<in> {''Strong opportunity'', ''Needs review'', ''Below threshold''})
   \<and> makeDecision 250 roi rank drops offers firstParty
        = \<lparr>decision = REJECT, reason = ''Profit below $3'', score = 0\<rparr>"
proof (intro conjI impI)
  assume "firstKnockout profit roi rank drops firstParty = Some rsn"
  then show "makeDecision profit roi rank drops offers firstParty
        = \<lparr>decision = REJECT, reason = rsn, score = 0\<rparr>"
    by (rule knockout_Some)
next
  assume "firstKnockout profit roi rank drops firstParty = None"
  then show "reason (makeDecision profit roi rank drops offers firstParty)
        \<in> {''Strong opportunity'', ''Needs review'', ''Below threshold''}"
    by (simp add: makeDecision_scoring Let_def)
next
  show "makeDecision 250 roi rank drops offers firstParty
        = \<lparr>decision = REJECT, reason = ''Profit below $3'', score = 0\<rparr>"
    by (simp add: makeDecision_def)
qed

theorem makeDecision_knockout_precedence_witness:
  "firstKnockout 500 20 (Some 4000000) (Some 1) True = Some ''ROI below 30%''
   \<and> makeDecision 500 20 (Some 4000000) (Some 1) 3 True
        = \<lparr>decision = REJECT, reason = ''ROI below 30%'', score = 0\<rparr>
   \<and> firstKnockout 500 40 (Some 200000) (Some 3) False = None
   \<and> reason (makeDecision 500 40 (Some 200000) (Some 3) 3 False) = ''Strong opportunity''"
proof -
  have h1: "firstKnockout 500 20 (Some 4000000) (Some 1) True = Some ''ROI below 30%''"
    by (simp add: firstKnockout_def knockoutRules_def)
  have h2: "firstKnockout 500 40 (Some 200000) (Some 3) False = None"
    by (simp add: firstKnockout_def knockoutRules_def)
  have r: "reason (makeDecision 500 40 (Some 200000) (Some 3) 3 False) = ''Strong opportunity''"
    by (simp add: makeDecision_def numberAnd_def notNullAnd_def truthy_def)
  show ?thesis
    using h1 h2 r
      makeDecision_knockout_precedence
        [of 500 20 "Some 4000000" "Some 1" True "''ROI below 30%''" 3]
      makeDecision_knockout_precedence
        [of 500 40 "Some 200000" "Some 3" False _ 3]
    by simp
qed

text \<open>
  Claim C3, as stated, gives a rank bonus to every known sales rank below the bounds. The code
  tests the rank for truthiness first, so a known rank of 0 gets no bonus: with profit 300,
  ROI 30, rank 0, two sales drops and eleven competing offers no knockout rule fires, the code
  returns the score 40 and REJECT, and the stated sum is 55, a REVIEW.
\<close>

theorem makeDecision_score_counterexample:
  "firstKnockout 300 30 (Some 0) (Some 2) False = None
   \<and> score (makeDecision 300 30 (Some 0) (Some 2) 11 False) = 40
   \<and> decision (makeDecision 300 30 (Some 0) (Some 2) 11 False) = REJECT
   \<and> scoreStated 300 30 (Some 0) (Some 2) 11 = 55
   \<and> decisionOfScore 55 = REVIEW"
  by (simp add: firstKnockout_def knockoutRules_def makeDecision_def numberAnd_def
      notNullAnd_def truthy_def scoreStated_def profitBonus_def roiBonus_def rankBonusStated_def
      velocityBonus_def competitionPenalty_def clampScore_def decisionOfScore_def)

text \<open>
  Claim C3, amended. On every input on which no knockout rule fires the score is 50 plus the
  bonus for profit, for ROI, for a sales rank that is known and not 0, for the sales drops, minus
  the penalty for competing offers, clamped to the range from 0 to 100; the decision is BUY
  exactly when the score is at least 70, REVIEW exactly when it is at least 50 and below 70,
  REJECT exactly when it is below 50. On every input the score lies between 0 and 100, and
  \<open>makeDecision(1200, 120, 50000, 12, 2, false)\<close> has the score 100 and BUY.
\<close>

theorem makeDecision_score:
  "(firstKnockout profit roi rank drops firstParty = None \<longrightarrow>
      score (makeDecision profit roi rank drops offers firstParty)
        = scoreAmended profit roi rank drops offers
      \<and> (decision (makeDecision profit roi rank drops offers firstParty) = BUY
           \<longleftrightarrow> score (makeDecision profit roi rank drops offers firstParty) \<ge> 70)
      \<and> (decision (makeDecision profit roi rank drops offers firstParty) = REVIEW
           \<longleftrightarrow> 50 \<le> score (makeDecision profit roi rank drops offers firstParty)
             \<and> score (makeDecision profit roi rank drops offers firstParty) < 70)
      \<and> (decision (makeDecision profit roi rank drops offers firstParty) = REJECT
           \<longleftrightarrow> score (makeDecision profit roi rank drops offers firstParty) < 50))
   \<and> 0 \<le> score (makeDecision profit roi rank drops offers firstParty)
   \<and> score (makeDecision profit roi rank drops offers firstParty) \<le> 100
   \<and> makeDecision 1200 120 (Some 50000) (Some 12) 2 False
        = \<lparr>decision = BUY, reason = ''Strong opportunity'', score = 100\<rparr>"
proof -
  let ?m = "makeDecision profit roi rank drops offers firstParty"
  let ?k = "firstKnockout profit roi rank drops firstParty"
  have scoring: "score ?m = scoreAmended profit roi rank drops offers
      \<and> (decision ?m = BUY \<longleftrightarrow> score ?m \<ge> 70)
      \<and> (decision ?m = REVIEW \<longleftrightarrow> 50 \<le> score ?m \<and> score ?m < 70)
      \<and> (decision ?m = REJECT \<longleftrightarrow> score ?m < 50)" if "?k = None"
    using makeDecision_scoring[OF that, of offers] by (simp add: Let_def)
  have range: "0 \<le> score ?m \<and> score ?m \<le> 100"
  proof (cases ?k)
    case None
    then show ?thesis
      using scoring scoreAmended_range[of profit roi rank drops offers] by simp
  next
    case (Some rsn)
    then show ?thesis
      using knockout_Some[of profit roi rank drops firstParty rsn offers] by simp
  qed
  have example: "makeDecision 1200 120 (Some 50000) (Some 12) 2 False
        = \<lparr>decision = BUY, reason = ''Strong opportunity'', score = 100\<rparr>"
    by (simp add: makeDecision_def numberAnd_def notNullAnd_def truthy_def)
  show ?thesis
    using scoring range example by blast
qed

theorem makeDecision_score_witness:
  "firstKnockout 600 60 (Some 0) (Some 6) False = None
   \<and> makeDecision 600 60 (Some 0) (Some 6) 11 False
        = \<lparr>decision = REVIEW, reason = ''Needs review'', score = 65\<rparr>
   \<and> scoreAmended 600 60 (Some 0) (Some 6) 11 = 65"
proof -
  have h: "firstKnockout 600 60 (Some 0) (Some 6) False = None"
    by (simp add: firstKnockout_def knockoutRules_def)
  have m: "makeDecision 600 60 (Some 0) (Some 6) 11 False
        = \<lparr>decision = REVIEW, reason = ''Needs review'', score = 65\<rparr>"
    by (simp add: makeDecision_def numberAnd_def notNullAnd_def truthy_def)
  show ?thesis
    using h m makeDecision_score[of 600 60 "Some 0" "Some 6" False 11] by simp
qed

subsection \<open>ISBN conversion\<close>

text \<open>
  Claim C4. For every valid ISBN-10 \<open>x\<close> (ten characters, the first nine of them decimal
  digits, the tenth the check character the standard asks for, a digit or \<open>X\<close>), converting to
  ISBN-13 succeeds and converting the result back gives \<open>x\<close> again.
\<close>

theorem isbn_round_trip:
  assumes "validIsbn10 x"
  shows "\<exists>y. isbn10to13 x = Some y \<and> isbn13to10 y = Some x"
proof -
  define ds where "ds = take 9 x"
  define c where "c = x ! 9"
  have len: "length x = 10" and dig: "list_all isDigit ds"
    using assms unfolding validIsbn10_def ds_def by auto
  have lds: "length ds = 9"
    using len by (simp add: ds_def)
  have "x = take 9 x @ drop 9 x" by simp
  moreover have "x ! 9 # drop (Suc 9) x = drop 9 x"
    using len by (intro Cons_nth_drop_Suc) simp
  then have "drop 9 x = [x ! 9]"
    using len by simp
  ultimately have x: "x = ds @ [c]"
    unfolding ds_def c_def by simp
  have cv: "isbn10CheckValue c \<noteq> None"
    using assms unfolding validIsbn10_def c_def by (auto split: option.splits)
  have csep: "c \<noteq> CHR ''-''" "\<not> isSpace c"
    using cv isDigit_not_sep[of c]
    by (auto simp: isbn10CheckValue_def isSpace_def split: if_splits)
  from isbn10to13_shape[OF dig lds csep] obtain k
    where k: "isDigit k" "isbn10to13 (ds @ [c]) = Some (''978'' @ ds @ [k])"
    by blast
  have "isbn13to10 (''978'' @ ds @ [k]) = Some (ds @ [c])"
    using isbn13to10_shape[OF dig lds k(1)] valid_check_char[OF assms]
    unfolding ds_def c_def by simp
  then show ?thesis
    using k(2) x by simp
qed

theorem isbn_round_trip_witness:
  "validIsbn10 ''080442957X''
   \<and> (\<exists>y. isbn10to13 ''080442957X'' = Some y \<and> isbn13to10 y = Some ''080442957X'')"
proof -
  have h: "validIsbn10 ''080442957X''"
    by code_simp
  show ?thesis
    using h isbn_round_trip[OF h] by simp
qed

text \<open>
  Claim C5, as stated, expects \<open>9780306406153\<close> for the ISBN-10 \<open>0306406152\<close>. The weighted
  sum of \<open>978030640615\<close> is 93, so the check digit is 7 and the code does not return the
  stated string.
\<close>

theorem isbn10to13_vector_counterexample:
  "isbn10to13 ''0306406152'' \<noteq> Some ''9780306406153''"
  by code_simp

text \<open>
  Claim C5, amended. \<open>isbn10to13("0306406152")\<close> is exactly \<open>9780306406157\<close>, the ISBN-13
  with the check digit of the standard.
\<close>

theorem isbn10to13_vector:
  "isbn10to13 ''0306406152'' = Some ''9780306406157''"
  by code_simp

text \<open>
  Claim C6, as stated, promises \<open>null\<close> for an input with characters that are not digits.
  The code checks the length (and the prefix) only: ten letters go through \<open>isbn10to13\<close> and
  come back with \<open>NaN\<close> as check digit, and so do nine letters after \<open>978\<close> with
  \<open>isbn13to10\<close>.
\<close>

theorem isbn_malformed_counterexample:
  "isbn10to13 ''abcdefghij'' = Some ''978abcdefghiNaN''
   \<and> isbn13to10 ''978abcdefghij'' = Some ''abcdefghiNaN''"
  by code_simp

text \<open>
  Claim C6, amended. On every string each conversion returns, and raises nothing: no
  operation of the two bodies raises on a string, and the value returned is known for every
  input. With \<open>c\<close> the input without hyphens and white space:
  \<^item> \<open>isbn10to13\<close> returns \<open>null\<close> exactly when the length of \<open>c\<close> is not 10; otherwise it
    returns \<open>978\<close>, the first nine characters of \<open>c\<close> and the check digit of the standard,
    13 characters, when the nine are digits, and the same twelve characters followed by
    \<open>NaN\<close>, 15 characters, when one of them is not a digit;
  \<^item> \<open>isbn13to10\<close> returns \<open>null\<close> exactly when the length of \<open>c\<close> is not 13 or \<open>c\<close> does
    not start with \<open>978\<close>; otherwise it returns the nine characters after the prefix and the
    check character of the standard, 10 characters, when the nine are digits, and the nine
    characters followed by \<open>NaN\<close>, 12 characters, when one of them is not a digit.

  The tenth character of an ISBN-10 and the thirteenth of an ISBN-13 are never read.
\<close>

theorem isbn_null_iff_wrong_shape:
  "isbn10to13 s = isbn10to13Amended s
   \<and> isbn13to10 s = isbn13to10Amended s
   \<and> (isbn10to13 s = None \<longleftrightarrow> length (withoutSeparators s) \<noteq> 10)
   \<and> (isbn13to10 s = None \<longleftrightarrow>
        length (withoutSeparators s) \<noteq> 13 \<or> take 3 (withoutSeparators s) \<noteq> ''978'')
   \<and> (isbn10to13 s = None
        \<or> (\<exists>y. isbn10to13 s = Some y \<and> take 3 y = ''978''
               \<and> (length y = 13 \<and> list_all isDigit y
                   \<or> length y = 15 \<and> drop 12 y = ''NaN'' \<and> \<not> list_all isDigit (take 12 y))))
   \<and> (isbn13to10 s = None
        \<or> (\<exists>y. isbn13to10 s = Some y
               \<and> (length y = 10 \<and> list_all isDigit (take 9 y)
                   \<or> length y = 12 \<and> drop 9 y = ''NaN'' \<and> \<not> list_all isDigit (take 9 y))))"
proof (intro conjI)
  define c where "c = withoutSeparators s"
  show up: "isbn10to13 s = isbn10to13Amended s"
    by (rule isbn10to13_amended)
  show down: "isbn13to10 s = isbn13to10Amended s"
    by (rule isbn13to10_amended)
  show "isbn10to13 s = None \<longleftrightarrow> length (withoutSeparators s) \<noteq> 10"
    unfolding up isbn10to13Amended_def Let_def by simp
  show "isbn13to10 s = None \<longleftrightarrow>
        length (withoutSeparators s) \<noteq> 13 \<or> take 3 (withoutSeparators s) \<noteq> ''978''"
    unfolding down isbn13to10Amended_def Let_def by auto
  show "isbn10to13 s = None
        \<or> (\<exists>y. isbn10to13 s = Some y \<and> take 3 y = ''978''
               \<and> (length y = 13 \<and> list_all isDigit y
                   \<or> length y = 15 \<and> drop 12 y = ''NaN'' \<and> \<not> list_all isDigit (take 12 y)))"
  proof (cases "length c = 10")
    case False
    then show ?thesis
      unfolding up isbn10to13Amended_def Let_def c_def by simp
  next
    case True
    let ?b = "''978'' @ take 9 c"
    have len: "length ?b = 12"
      using True by simp
    show ?thesis
    proof (cases "list_all isDigit ?b")
      case digits: True
      have k: "isDigit (decimalDigit (ean13CheckDigit ?b))"
        unfolding decimalDigit_def
        by (rule isDigit_char_of) (simp add: ean13CheckDigit_def)
      have "isbn10to13 s = Some (?b @ [decimalDigit (ean13CheckDigit ?b)])"
        unfolding up isbn10to13Amended_def Let_def c_def[symmetric]
        using True digits by simp
      moreover have "list_all isDigit (?b @ [decimalDigit (ean13CheckDigit ?b)])"
        using digits k by simp
      moreover have "length (?b @ [decimalDigit (ean13CheckDigit ?b)]) = 13"
        using len by simp
      ultimately show ?thesis
        by simp
    next
      case False
      have "isbn10to13 s = Some (?b @ ''NaN'')"
        unfolding up isbn10to13Amended_def Let_def c_def[symmetric]
        using True False by simp
      moreover have "take 12 (?b @ ''NaN'') = ?b" "drop 12 (?b @ ''NaN'') = ''NaN''"
        using len by simp_all
      moreover have "length (?b @ ''NaN'') = 15"
        using len by simp
      ultimately show ?thesis
        using False by simp
    qed
  qed
  show "isbn13to10 s = None
        \<or> (\<exists>y. isbn13to10 s = Some y
               \<and> (length y = 10 \<and> list_all isDigit (take 9 y)
                   \<or> length y = 12 \<and> drop 9 y = ''NaN'' \<and> \<not> list_all isDigit (take 9 y)))"
  proof (cases "length c = 13 \<and> take 3 c = ''978''")
    case False
    then show ?thesis
      unfolding down isbn13to10Amended_def Let_def c_def by auto
  next
    case True
    let ?b = "take 9 (drop 3 c)"
    have len: "length ?b = 9"
      using True by simp
    show ?thesis
    proof (cases "list_all isDigit ?b")
      case digits: True
      have "isbn13to10 s = Some (?b @ [isbn10CheckChar ?b])"
        unfolding down isbn13to10Amended_def Let_def c_def[symmetric]
        using True digits by simp
      moreover have "take 9 (?b @ [isbn10CheckChar ?b]) = ?b"
        using len by simp
      moreover have "length (?b @ [isbn10CheckChar ?b]) = 10"
        using len by simp
      ultimately show ?thesis
        using digits by simp
    next
      case False
      have "isbn13to10 s = Some (?b @ ''NaN'')"
        unfolding down isbn13to10Amended_def Let_def c_def[symmetric]
        using True False by simp
      moreover have "take 9 (?b @ ''NaN'') = ?b" "drop 9 (?b @ ''NaN'') = ''NaN''"
        using len by simp_all
      moreover have "length (?b @ ''NaN'') = 12"
        using len by simp
      ultimately show ?thesis
        using False by simp
    qed
  qed
qed

theorem isbn_null_iff_wrong_shape_witness:
  "isbn10to13 ''0-306-40615-2'' = Some ''9780306406157''
   \<and> length (withoutSeparators ''0-306-4061'') \<noteq> 10
   \<and> isbn10to13 ''0-306-4061'' = None
   \<and> isbn10to13 ''0 306 4o615 2'' = Some ''97803064o615NaN''
   \<and> isbn13to10 ''978-0-306-40615-7'' = Some ''0306406152''
   \<and> take 3 (withoutSeparators ''979-0-306-40615-7'') \<noteq> ''978''
   \<and> isbn13to10 ''979-0-306-40615-7'' = None
   \<and> length (withoutSeparators ''978-0-306-406'') \<noteq> 13
   \<and> isbn13to10 ''978-0-306-406'' = None"
proof -
  note up = isbn_null_iff_wrong_shape[THEN conjunct1]
  note down = isbn_null_iff_wrong_shape[THEN conjunct2, THEN conjunct1]
  note up_null = isbn_null_iff_wrong_shape[THEN conjunct2, THEN conjunct2, THEN conjunct1]
  note down_null = isbn_null_iff_wrong_shape[THEN conjunct2, THEN conjunct2, THEN conjunct2,
      THEN conjunct1]
  have "isbn10to13Amended ''0-306-40615-2'' = Some ''9780306406157''"
    by code_simp
  then have a: "isbn10to13 ''0-306-40615-2'' = Some ''9780306406157''"
    by (simp only: up)
  have b: "length (withoutSeparators ''0-306-4061'') \<noteq> 10"
    by code_simp
  have b': "isbn10to13 ''0-306-4061'' = None"
    using b by (rule iffD2[OF up_null])
  have "isbn10to13Amended ''0 306 4o615 2'' = Some ''97803064o615NaN''"
    by code_simp
  then have c: "isbn10to13 ''0 306 4o615 2'' = Some ''97803064o615NaN''"
    by (simp only: up)
  have "isbn13to10Amended ''978-0-306-40615-7'' = Some ''0306406152''"
    by code_simp
  then have d: "isbn13to10 ''978-0-306-40615-7'' = Some ''0306406152''"
    by (simp only: down)
  have e: "take 3 (withoutSeparators ''979-0-306-40615-7'') \<noteq> ''978''"
    by code_simp
  have e': "isbn13to10 ''979-0-306-40615-7'' = None"
    using disjI2[OF e] by (rule iffD2[OF down_null])
  have f: "length (withoutSeparators ''978-0-306-406'') \<noteq> 13"
    by code_simp
  have f': "isbn13to10 ''978-0-306-406'' = None"
    using disjI1[OF f] by (rule iffD2[OF down_null])
  show ?thesis
    by (intro conjI; fact a b b' c d e e' f f')
qed


subsection \<open>ISBN extraction from a listing\<close>

text \<open>
  Claim C8. \<open>extractISBN\<close> returns the value of the first of its four rules that matches,
  and \<open>null\<close> when none does: (1) the first entry of the explicit ISBN list when the list
  is not empty; (2) the GTIN without hyphens and white space when 10 or 13 characters remain;
  (3) the value of the first localized aspect whose name contains "isbn" in any case;
  (4) the leftmost run of exactly 10 or 13 digits of the title that has no word character next
  to it. So an explicit ISBN wins over any digits in the title, and without an explicit ISBN
  a GTIN of 10 or 13 characters is returned without its hyphens and white space.
\<close>

theorem extractISBN_first_rule:
  "extractISBN item =
     firstSome [ruleExplicit item, ruleGtin item, ruleAspect item, titleMatch (title item)]
   \<and> (\<forall>d. titleMatch (title item) = Some d \<longleftrightarrow>
          (\<exists>i. standaloneNumberAt (title item) i d
               \<and> (\<forall>j<i. \<forall>e. \<not> standaloneNumberAt (title item) j e)))
   \<and> (titleMatch (title item) = None \<longleftrightarrow> (\<forall>i d. \<not> standaloneNumberAt (title item) i d))
   \<and> (\<forall>x xs. isbn item = Some (x # xs) \<longrightarrow> extractISBN item = Some x)
   \<and> (\<forall>g. (isbn item = None \<or> isbn item = Some []) \<and> gtin item = Some g
          \<and> (length (withoutSeparators g) = 10 \<or> length (withoutSeparators g) = 13)
          \<longrightarrow> extractISBN item = Some (withoutSeparators g))"
proof (intro conjI allI impI)
  show rules: "extractISBN item =
     firstSome [ruleExplicit item, ruleGtin item, ruleAspect item, titleMatch (title item)]"
    by (rule extractISBN_rules)
  show "titleMatch (title item) = Some d \<longleftrightarrow>
          (\<exists>i. standaloneNumberAt (title item) i d
               \<and> (\<forall>j<i. \<forall>e. \<not> standaloneNumberAt (title item) j e))" for d
    by (rule titleMatch_Some)
  show "titleMatch (title item) = None \<longleftrightarrow> (\<forall>i d. \<not> standaloneNumberAt (title item) i d)"
    by (rule titleMatch_None)
  show "extractISBN item = Some x" if "isbn item = Some (x # xs)" for x xs
    using that unfolding rules by (simp add: firstSome_def ruleExplicit_def)
  show "extractISBN item = Some (withoutSeparators g)"
    if "(isbn item = None \<or> isbn item = Some []) \<and> gtin item = Some g
          \<and> (length (withoutSeparators g) = 10 \<or> length (withoutSeparators g) = 13)" for g
  proof -
    have "ruleExplicit item = None"
      using that by (auto simp: ruleExplicit_def)
    moreover have "ruleGtin item = Some (withoutSeparators g)"
      using that by (auto simp: ruleGtin_def)
    ultimately show ?thesis
      unfolding rules by (simp add: firstSome_def)
  qed
qed

theorem extractISBN_first_rule_witness:
  "extractISBN \<lparr>itemId = ''v1|1|0'', title = ''Calculus 0306406152 used'',
                isbn = Some [''9780131103627''], gtin = None, localizedAspects = None\<rparr>
     = Some ''9780131103627''
   \<and> extractISBN \<lparr>itemId = ''v1|2|0'', title = ''Calculus 0306406152 used'',
                isbn = None, gtin = Some ''12345'', localizedAspects = Some []\<rparr>
     = Some ''0306406152''
   \<and> standaloneNumberAt ''Calculus 0306406152 used'' 9 ''0306406152''
   \<and> length (withoutSeparators ''978-0-306-40615-7'') = 13
   \<and> extractISBN \<lparr>itemId = ''v1|3|0'', title = ''Calculus 0306406152 used'',
                isbn = Some [], gtin = Some ''978-0-306-40615-7'', localizedAspects = None\<rparr>
     = Some ''9780306406157''
   \<and> extractISBN \<lparr>itemId = ''v1|4|0'', title = ''Calculus 0306406152 used'',
                isbn = None, gtin = Some ''0 306 40615'',
                localizedAspects = Some
                  [\<lparr>aspectType = ''STRING'', aspectName = ''Format'', aspectValue = ''Paperback''\<rparr>,
                   \<lparr>aspectType = ''STRING'', aspectName = ''Isbn-13'',
                    aspectValue = ''9780131103627''\<rparr>]\<rparr>
     = Some ''9780131103627''"
proof -
  let ?a = "\<lparr>itemId = ''v1|1|0'', title = ''Calculus 0306406152 used'',
                isbn = Some [''9780131103627''], gtin = None, localizedAspects = None\<rparr>"
  let ?b = "\<lparr>itemId = ''v1|2|0'', title = ''Calculus 0306406152 used'',
                isbn = None, gtin = Some ''12345'', localizedAspects = Some []\<rparr>"
  let ?c = "\<lparr>itemId = ''v1|3|0'', title = ''Calculus 0306406152 used'',
                isbn = Some [], gtin = Some ''978-0-306-40615-7'', localizedAspects = None\<rparr>"
  let ?d = "\<lparr>itemId = ''v1|4|0'', title = ''Calculus 0306406152 used'',
                isbn = None, gtin = Some ''0 306 40615'',
                localizedAspects = Some
                  [\<lparr>aspectType = ''STRING'', aspectName = ''Format'', aspectValue = ''Paperback''\<rparr>,
                   \<lparr>aspectType = ''STRING'', aspectName = ''Isbn-13'',
                    aspectValue = ''9780131103627''\<rparr>]\<rparr>"
  have t: "titleMatch ''Calculus 0306406152 used'' = Some ''0306406152''"
    by code_simp
  have g: "ruleGtin ?b = None" "ruleAspect ?b = None" "ruleExplicit ?b = None"
    by code_simp+
  have s: "standaloneNumberAt ''Calculus 0306406152 used'' 9 ''0306406152''"
    by code_simp
  have "\<forall>x xs. isbn ?a = Some (x # xs) \<longrightarrow> extractISBN ?a = Some x"
    using extractISBN_first_rule[of ?a] by blast
  then have a: "extractISBN ?a = Some ''9780131103627''"
    by simp
  have "extractISBN ?b =
     firstSome [ruleExplicit ?b, ruleGtin ?b, ruleAspect ?b, titleMatch (title ?b)]"
    using extractISBN_first_rule[of ?b] by blast
  then have b: "extractISBN ?b = Some ''0306406152''"
    using g t by (simp add: firstSome_def)
  have w: "withoutSeparators ''978-0-306-40615-7'' = ''9780306406157''"
    by code_simp
  then have l: "length (withoutSeparators ''978-0-306-40615-7'') = 13"
    by simp
  have "\<forall>g. (isbn ?c = None \<or> isbn ?c = Some []) \<and> gtin ?c = Some g
          \<and> (length (withoutSeparators g) = 10 \<or> length (withoutSeparators g) = 13)
          \<longrightarrow> extractISBN ?c = Some (withoutSeparators g)"
    using extractISBN_first_rule[of ?c] by blast
  then have "extractISBN ?c = Some (withoutSeparators ''978-0-306-40615-7'')"
    using l by simp
  then have c: "extractISBN ?c = Some ''9780306406157''"
    by (simp only: w)
  have h: "ruleGtin ?d = None" "ruleAspect ?d = Some ''9780131103627''" "ruleExplicit ?d = None"
    by code_simp+
  have "extractISBN ?d =
     firstSome [ruleExplicit ?d, ruleGtin ?d, ruleAspect ?d, titleMatch (title ?d)]"
    using extractISBN_first_rule[of ?d] by blast
  then have d: "extractISBN ?d = Some ''9780131103627''"
    using h by (simp add: firstSome_def)
  show ?thesis
    by (intro conjI; fact a b s l c d)
qed
subsection \<open>The retrying fetch wrapper\<close>

text \<open>
  Claim C7, as stated, has the wrapper wait the \<open>Retry-After\<close> value itself after a 429
  and throw a rate-limit or server-error failure whenever the last attempt fails. The code
  caps the header's wait at 30000 ms like the backoff delay: after a 429 with
  \<open>Retry-After: 60\<close> it waits 30000 ms, not 60000 ms. And when the last attempt fails in
  the network, what it throws is that failure.
\<close>

theorem fetchWithRetry_policy_counterexample:
  "retryAfterSeconds (rateLimitedOnce 0) = Some 60
   \<and> waitStated 0 (rateLimitedOnce 0) = 60000
   \<and> waits (fetchWithRetry rateLimitedOnce) = [30000]
   \<and> retriable (unreachable 2)
   \<and> outcome (fetchWithRetry unreachable) = Inl TransportError"
  by code_simp

text \<open>
  Claim C7, amended. For every sequence of transport outcomes \<open>fetchWithRetry\<close> calls
  \<open>fetch\<close> at most 1 + 2 times. The first outcome among the first three that is neither
  a 429, a 5xx nor a failure of the network is a response, and it is returned with no further
  attempt. Before each retry the wrapper waits: after a 429 the \<open>Retry-After\<close> value in
  milliseconds capped at 30000 ms when the header is present and parseable, otherwise, and after a
  5xx or a failure of the network, the backoff delay, 1000 ms doubled at each retry and capped
  at 30000 ms. When the third attempt still ends in a 429, a 5xx or a failure, the wrapper
  throws without another attempt or wait: the rate-limit error after a 429, the server error
  with the status after a 5xx, the transport failure itself after a failure of the network.
\<close>

theorem fetchWithRetry_policy:
  "attempts (fetchWithRetry server) \<le> 1 + 2
   \<and> (\<forall>k r. k \<le> 2 \<and> (\<forall>j<k. retriable (server j)) \<and> server k = Resolves r
              \<and> \<not> retriable (server k) \<longrightarrow>
          fetchWithRetry server =
            \<lparr>outcome = Inr r, attempts = k + 1,
             waits = map (\<lambda>j. waitAmended j (server j)) [0..<k]\<rparr>)
   \<and> ((\<forall>j\<le>2. retriable (server j)) \<longrightarrow>
          fetchWithRetry server =
            \<lparr>outcome = Inl (finalError (server 2)), attempts = 3,
             waits = [waitAmended 0 (server 0), waitAmended 1 (server 1)]\<rparr>)"
proof -
  have ret: "fetchWithRetry server =
            \<lparr>outcome = Inr r, attempts = k + 1,
             waits = map (\<lambda>j. waitAmended j (server j)) [0..<k]\<rparr>"
    if k: "k \<le> 2" and before: "\<forall>j<k. retriable (server j)" and r: "server k = Resolves r"
      and nr: "\<not> retriable (server k)" for k r
  proof -
    consider (0) "k = 0" | (1) "k = 1" | (2) "k = 2"
      using k by linarith
    then show ?thesis
    proof cases
      case 0
      then show ?thesis
        using fetchLoop_return[of 0 server r initialDelayMs None "[]"] r nr
        by (simp add: fetchWithRetry_def)
    next
      case 1
      then have "retriable (server 0)" using before by simp
      from fetch_first_retry[of server, OF this] obtain e where
        "fetchWithRetry server = fetchLoop server 1 (backoffDelay 1) e [waitAmended 0 (server 0)]"
        by blast
      then show ?thesis
        using fetchLoop_return[of 1 server r "backoffDelay 1" e "[waitAmended 0 (server 0)]"]
          r nr 1 by simp
    next
      case 2
      then have "retriable (server 0)" "retriable (server 1)" using before by simp_all
      from fetch_second_retry[of server, OF this] obtain e d where
        "fetchWithRetry server =
           fetchLoop server 2 d e [waitAmended 0 (server 0), waitAmended 1 (server 1)]"
        by blast
      moreover have "[0..<2] = [0, Suc 0]"
        by (simp add: upt_rec)
      ultimately show ?thesis
        using fetchLoop_last_return[of server r d e] r nr 2 by simp
    qed
  qed
  have fail: "fetchWithRetry server =
            \<lparr>outcome = Inl (finalError (server 2)), attempts = 3,
             waits = [waitAmended 0 (server 0), waitAmended 1 (server 1)]\<rparr>"
    if all: "\<forall>j\<le>2. retriable (server j)"
  proof -
    have "retriable (server 0)" "retriable (server 1)" and last: "retriable (server 2)"
      using all by simp_all
    from fetch_second_retry[of server, OF this(1,2)] obtain e d where
      "fetchWithRetry server =
         fetchLoop server 2 d e [waitAmended 0 (server 0), waitAmended 1 (server 1)]"
      by blast
    then show ?thesis
      using fetchLoop_last_retriable[of server d e, OF last] by simp
  qed
  have count: "attempts (fetchWithRetry server) \<le> 1 + 2"
  proof (cases "\<forall>j\<le>2. retriable (server j)")
    case True
    then show ?thesis using fail by simp
  next
    case False
    define k where "k = (LEAST j. \<not> retriable (server j))"
    from False obtain j where j: "j \<le> 2" "\<not> retriable (server j)"
      by blast
    then have nk: "\<not> retriable (server k)"
      unfolding k_def by (metis (mono_tags, lifting) LeastI)
    have k2: "k \<le> 2"
      unfolding k_def using j by (meson Least_le le_trans)
    have before: "\<forall>i<k. retriable (server i)"
      unfolding k_def using not_less_Least by blast
    from nk obtain r where "server k = Resolves r"
      by (cases "server k") (auto simp: retriable_def)
    from ret[OF k2 before this nk] show ?thesis
      using k2 by simp
  qed
  show ?thesis
    using count ret fail by blast
qed

theorem fetchWithRetry_policy_witness:
  "retriable (busyThenDown 0) \<and> retriable (busyThenDown 1) \<and> retriable (busyThenDown 2)
   \<and> fetchWithRetry busyThenDown =
        \<lparr>outcome = Inl (ServerError 500), attempts = 3, waits = [1000, 2000]\<rparr>
   \<and> \<not> retriable (rateLimitedOnce 1)
   \<and> fetchWithRetry rateLimitedOnce =
        \<lparr>outcome = Inr \<lparr>status = 200, retryAfterHeader = None\<rparr>, attempts = 2,
         waits = [30000]\<rparr>"
proof -
  have h1: "\<forall>j\<le>2. retriable (busyThenDown j)"
    by (simp add: retriable_def busyThenDown_def)
  have h2: "1 \<le> (2::nat) \<and> (\<forall>j<1. retriable (rateLimitedOnce j))
      \<and> rateLimitedOnce 1 = Resolves \<lparr>status = 200, retryAfterHeader = None\<rparr>
      \<and> \<not> retriable (rateLimitedOnce 1)"
    by (simp add: retriable_def rateLimitedOnce_def)
  have v: "finalError (busyThenDown 2) = ServerError 500"
    "waitAmended 0 (busyThenDown 0) = 1000" "waitAmended 1 (busyThenDown 1) = 2000"
    "waitAmended 0 (rateLimitedOnce 0) = 30000"
    by code_simp+
  have a: "fetchWithRetry busyThenDown =
        \<lparr>outcome = Inl (ServerError 500), attempts = 3, waits = [1000, 2000]\<rparr>"
    using fetchWithRetry_policy[of busyThenDown] h1 v by simp
  have "fetchWithRetry rateLimitedOnce =
            \<lparr>outcome = Inr \<lparr>status = 200, retryAfterHeader = None\<rparr>, attempts = 1 + 1,
             waits = map (\<lambda>j. waitAmended j (rateLimitedOnce j)) [0..<1]\<rparr>"
    using fetchWithRetry_policy[of rateLimitedOnce] h2 by blast
  then have b: "fetchWithRetry rateLimitedOnce =
        \<lparr>outcome = Inr \<lparr>status = 200, retryAfterHeader = None\<rparr>, attempts = 2,
         waits = [30000]\<rparr>"
    using v by simp
  have h3: "retriable (busyThenDown 0) \<and> retriable (busyThenDown 1) \<and> retriable (busyThenDown 2)"
    using h1 by simp
  show ?thesis
    using h2 h3 a b by blast
qed

subsection \<open>Fee calculation\<close>

text \<open>
  Claim C1, as stated, gives every amount by a formula, for all integer inputs; read in exact
  arithmetic it fails on the code, which computes in doubles. The quotient 203 / 200 and its
  product with 100 are both rounded, to 101.49999999999999, so \<open>calculateFees(177, 949)\<close> has the platform ROI 101 where the exact
  percentage 101.5 rounds to 102. And on the integer 8000000000000003, below 2^53, the product
  with 0.15 rounds to a half that \<open>Math.round\<close> takes upwards: the referral fee is
  1200000000000001, the exactly rounded fee 1200000000000000.
\<close>

theorem calculateFees_values_counterexample:
  "fbaRoi (calculateFees 177 949) = 101
   \<and> roiStated (platformProfitStated 177 949) (totalCostStated 177) = 102
   \<and> referralFee (calculateFees 0 8000000000000003) = 1200000000000001
   \<and> referralFeeStated 8000000000000003 = 1200000000000000"
  by code_simp

text \<open>
  Claim C1, amended. For all integer inputs of magnitude at most 10^12, the referral fee is
  the sell price times 0.15 and the marketplace fee the buy price times 0.13, each rounded to
  the nearest integer, halves upwards; the total cost is the buy price plus the marketplace
  fee; the platform-fulfilled profit is the sell price minus the referral fee, 354, 50 and the
  total cost, the merchant-fulfilled profit the sell price minus the referral fee, 180, 399
  and the total cost; the fulfillment fee returned is 354. Each ROI is 0 when the total cost is
  not positive, and otherwise \<open>Math.round\<close> of the double that results from dividing the
  profit by the total cost and multiplying by 100, each operation rounded to a double: it is the
  exact percentage rounded to the nearest integer, halves upwards, whenever the exact percentage
  is not an integer plus one half, and that integer or the next when it is.
  \<open>calculateFees(1000, 3000)\<close> has referral fee 450, marketplace fee 130, total cost 1130 and
  platform profit 1016. The marketplace fee and the total cost are local to the function;
  the result carries the two profits, the two ROIs, the referral fee and the fulfillment fee.
\<close>

theorem calculateFees_values:
  assumes "\<bar>buy\<bar> \<le> 10 ^ 12" and "\<bar>sell\<bar> \<le> 10 ^ 12"
  shows "referralFee (calculateFees (of_int buy) (of_int sell)) = of_int (referralFeeStated sell)
   \<and> ebayFee (of_int buy) = of_int (marketplaceFeeStated buy)
   \<and> totalEbayCost (of_int buy) = of_int (totalCostStated buy)
   \<and> fbaProfit (calculateFees (of_int buy) (of_int sell))
       = of_int (platformProfitStated buy sell)
   \<and> fbmProfit (calculateFees (of_int buy) (of_int sell))
       = of_int (merchantProfitStated buy sell)
   \<and> fulfillmentFee (calculateFees (of_int buy) (of_int sell)) = 354
   \<and> fbaRoi (calculateFees (of_int buy) (of_int sell))
       = roiDouble (platformProfitStated buy sell) (totalCostStated buy)
   \<and> fbmRoi (calculateFees (of_int buy) (of_int sell))
       = roiDouble (merchantProfitStated buy sell) (totalCostStated buy)
   \<and> (\<forall>p \<in> {platformProfitStated buy sell, merchantProfitStated buy sell}.
        ((200 * p + totalCostStated buy) mod (2 * totalCostStated buy) \<noteq> 0 \<longrightarrow>
           roiDouble p (totalCostStated buy) = of_int (roiStated p (totalCostStated buy)))
        \<and> (roiDouble p (totalCostStated buy) = of_int (roiStated p (totalCostStated buy))
           \<or> roiDouble p (totalCostStated buy) = of_int (roiStated p (totalCostStated buy) - 1)))
   \<and> calculateFees 1000 3000 =
        \<lparr>fbaProfit = 1016, fbmProfit = 841, fbaRoi = 90, fbmRoi = 74, referralFee = 450,
         fulfillmentFee = 354\<rparr>
   \<and> ebayFee 1000 = 130 \<and> totalEbayCost 1000 = 1130"
proof -
  note exact = calculateFees_exact[OF assms]
  note bounds = profit_bounds[OF assms]
  have roi: "\<forall>p \<in> {platformProfitStated buy sell, merchantProfitStated buy sell}.
        ((200 * p + totalCostStated buy) mod (2 * totalCostStated buy) \<noteq> 0 \<longrightarrow>
           roiDouble p (totalCostStated buy) = of_int (roiStated p (totalCostStated buy)))
        \<and> (roiDouble p (totalCostStated buy) = of_int (roiStated p (totalCostStated buy))
           \<or> roiDouble p (totalCostStated buy) = of_int (roiStated p (totalCostStated buy) - 1))"
    using roiDouble_stated[OF bounds(1), of "totalCostStated buy"]
      roiDouble_stated[OF bounds(2), of "totalCostStated buy"]
    by blast
  have example: "calculateFees 1000 3000 =
        \<lparr>fbaProfit = 1016, fbmProfit = 841, fbaRoi = 90, fbmRoi = 74, referralFee = 450,
         fulfillmentFee = 354\<rparr>
      \<and> ebayFee 1000 = 130 \<and> totalEbayCost 1000 = 1130"
    by code_simp
  show ?thesis
    unfolding exact(3) using exact(1,2) roi example by simp
qed

theorem calculateFees_values_witness:
  "\<bar>177 :: int\<bar> \<le> 10 ^ 12 \<and> \<bar>947 :: int\<bar> \<le> 10 ^ 12
   \<and> referralFee (calculateFees 177 947) = 142 \<and> ebayFee 177 = 23 \<and> totalEbayCost 177 = 200
   \<and> fbaProfit (calculateFees 177 947) = 201 \<and> fbmProfit (calculateFees 177 947) = 26
   \<and> (200 * 26 + 200) mod (2 * 200) \<noteq> (0 :: int)
   \<and> fbmRoi (calculateFees 177 947) = 13"
proof -
  have h: "\<bar>177 :: int\<bar> \<le> 10 ^ 12" "\<bar>947 :: int\<bar> \<le> 10 ^ 12"
    by simp_all
  have v: "referralFeeStated 947 = 142" "marketplaceFeeStated 177 = 23"
    "totalCostStated 177 = 200" "platformProfitStated 177 947 = 201"
    "merchantProfitStated 177 947 = 26" "roiStated 26 200 = 13"
    by code_simp+
  show ?thesis
    using h calculateFees_values[OF h] v by simp
qed

subsection \<open>Product records\<close>

text \<open>
  Claim C9. For every raw payload, whatever the clock and the calendar, the record that
  \<open>parseKeepaProduct\<close> produces has offer counts and a review count that are not
  negative; a buy-box price that is \<open>null\<close> or strictly positive; prices, a sales rank and a
  rating that are \<open>null\<close> or not negative; and an out-of-stock percentage that is
  \<open>null\<close> or between 0 and 100. More precisely, with the value read for a metric being the
  entry of the current snapshot or, when that is absent, the last entry of the time series:
  \<^item> each price and the rating is the value read, and \<open>null\<close> when that value is missing or
    negative; the sales rank is the last entry of its time series, and \<open>null\<close> when that
    is missing or negative; the average price is the entry of the 90-day averages, and
    \<open>null\<close> when that is missing or negative;
  \<^item> each offer count is the field of the statistics or, when that is absent, the entry of the
    current snapshot, and 0 when that is missing or negative; the review count is the value
    read, and 0 when that is missing or negative;
  \<^item> the buy-box price is the field of the statistics, and \<open>null\<close> when that is missing, 0
    or negative; the out-of-stock percentage is the field of the statistics, and \<open>null\<close> when
    that is missing or outside 0 to 100.
\<close>

theorem parseKeepaProduct_invariants:
  "newOfferCount (parseKeepaProduct now dayOf raw) = clampedCount (countRead raw offerCountNew COUNT_NEW)
   \<and> usedOfferCount (parseKeepaProduct now dayOf raw) = clampedCount (countRead raw offerCountUsed COUNT_USED)
   \<and> fbaOfferCount (parseKeepaProduct now dayOf raw) = clampedCount (countRead raw offerCountFBA COUNT_NEW_FBA)
   \<and> reviewCount (parseKeepaProduct now dayOf raw) = clampedCount (snapshotOrLatest raw COUNT_REVIEWS)
   \<and> buyBoxPrice (parseKeepaProduct now dayOf raw) = positiveOrNull (statsField raw statsBuyBoxPrice)
   \<and> amazonPrice (parseKeepaProduct now dayOf raw) = noDataIfNegative (snapshotOrLatest raw AMAZON)
   \<and> newPrice (parseKeepaProduct now dayOf raw) = noDataIfNegative (snapshotOrLatest raw NEW)
   \<and> usedPrice (parseKeepaProduct now dayOf raw) = noDataIfNegative (snapshotOrLatest raw USED)
   \<and> newFbaPrice (parseKeepaProduct now dayOf raw) = noDataIfNegative (snapshotOrLatest raw NEW_FBA)
   \<and> avgPrice90 (parseKeepaProduct now dayOf raw) = noDataIfNegative (statsArrayAt raw avg90 NEW)
   \<and> salesRank (parseKeepaProduct now dayOf raw) = noDataIfNegative (lastEntry (csvAt raw SALES_RANK))
   \<and> rating (parseKeepaProduct now dayOf raw) = noDataIfNegative (snapshotOrLatest raw RATING)
   \<and> outOfStockPercentage90 (parseKeepaProduct now dayOf raw) = percentageOrNull (statsField raw statsOutOfStockPercentage90)
   \<and> 0 \<le> newOfferCount (parseKeepaProduct now dayOf raw)
   \<and> 0 \<le> usedOfferCount (parseKeepaProduct now dayOf raw)
   \<and> 0 \<le> fbaOfferCount (parseKeepaProduct now dayOf raw)
   \<and> 0 \<le> reviewCount (parseKeepaProduct now dayOf raw)
   \<and> nullOrPositive (buyBoxPrice (parseKeepaProduct now dayOf raw))
   \<and> nullOrAtLeast 0 (amazonPrice (parseKeepaProduct now dayOf raw))
   \<and> nullOrAtLeast 0 (newPrice (parseKeepaProduct now dayOf raw))
   \<and> nullOrAtLeast 0 (usedPrice (parseKeepaProduct now dayOf raw))
   \<and> nullOrAtLeast 0 (newFbaPrice (parseKeepaProduct now dayOf raw))
   \<and> nullOrAtLeast 0 (avgPrice90 (parseKeepaProduct now dayOf raw))
   \<and> nullOrAtLeast 0 (salesRank (parseKeepaProduct now dayOf raw))
   \<and> nullOrAtLeast 0 (rating (parseKeepaProduct now dayOf raw))
   \<and> nullOrPercentage (outOfStockPercentage90 (parseKeepaProduct now dayOf raw))
   \<and> (\<forall>v<0. (snapshotOrLatest raw AMAZON = Some v \<longrightarrow>
               amazonPrice (parseKeepaProduct now dayOf raw) = None)
         \<and> (snapshotOrLatest raw NEW = Some v \<longrightarrow>
               newPrice (parseKeepaProduct now dayOf raw) = None)
         \<and> (snapshotOrLatest raw USED = Some v \<longrightarrow>
               usedPrice (parseKeepaProduct now dayOf raw) = None)
         \<and> (snapshotOrLatest raw NEW_FBA = Some v \<longrightarrow>
               newFbaPrice (parseKeepaProduct now dayOf raw) = None)
         \<and> (statsArrayAt raw avg90 NEW = Some v \<longrightarrow>
               avgPrice90 (parseKeepaProduct now dayOf raw) = None)
         \<and> (lastEntry (csvAt raw SALES_RANK) = Some v \<longrightarrow>
               salesRank (parseKeepaProduct now dayOf raw) = None)
         \<and> (snapshotOrLatest raw RATING = Some v \<longrightarrow>
               rating (parseKeepaProduct now dayOf raw) = None)
         \<and> (countRead raw offerCountNew COUNT_NEW = Some v \<longrightarrow>
               newOfferCount (parseKeepaProduct now dayOf raw) = 0)
         \<and> (countRead raw offerCountUsed COUNT_USED = Some v \<longrightarrow>
               usedOfferCount (parseKeepaProduct now dayOf raw) = 0)
         \<and> (countRead raw offerCountFBA COUNT_NEW_FBA = Some v \<longrightarrow>
               fbaOfferCount (parseKeepaProduct now dayOf raw) = 0)
         \<and> (snapshotOrLatest raw COUNT_REVIEWS = Some v \<longrightarrow>
               reviewCount (parseKeepaProduct now dayOf raw) = 0))
   \<and> (\<forall>v\<ge>0. (snapshotOrLatest raw AMAZON = Some v \<longrightarrow>
               amazonPrice (parseKeepaProduct now dayOf raw) = Some v)
         \<and> (snapshotOrLatest raw NEW = Some v \<longrightarrow>
               newPrice (parseKeepaProduct now dayOf raw) = Some v)
         \<and> (snapshotOrLatest raw USED = Some v \<longrightarrow>
               usedPrice (parseKeepaProduct now dayOf raw) = Some v)
         \<and> (snapshotOrLatest raw NEW_FBA = Some v \<longrightarrow>
               newFbaPrice (parseKeepaProduct now dayOf raw) = Some v)
         \<and> (statsArrayAt raw avg90 NEW = Some v \<longrightarrow>
               avgPrice90 (parseKeepaProduct now dayOf raw) = Some v)
         \<and> (lastEntry (csvAt raw SALES_RANK) = Some v \<longrightarrow>
               salesRank (parseKeepaProduct now dayOf raw) = Some v)
         \<and> (snapshotOrLatest raw RATING = Some v \<longrightarrow>
               rating (parseKeepaProduct now dayOf raw) = Some v)
         \<and> (countRead raw offerCountNew COUNT_NEW = Some v \<longrightarrow>
               newOfferCount (parseKeepaProduct now dayOf raw) = v)
         \<and> (countRead raw offerCountUsed COUNT_USED = Some v \<longrightarrow>
               usedOfferCount (parseKeepaProduct now dayOf raw) = v)
         \<and> (countRead raw offerCountFBA COUNT_NEW_FBA = Some v \<longrightarrow>
               fbaOfferCount (parseKeepaProduct now dayOf raw) = v)
         \<and> (snapshotOrLatest raw COUNT_REVIEWS = Some v \<longrightarrow>
               reviewCount (parseKeepaProduct now dayOf raw) = v))
   \<and> (\<forall>b\<le>0. statsField raw statsBuyBoxPrice = Some b \<longrightarrow>
           buyBoxPrice (parseKeepaProduct now dayOf raw) = None)"
proof -
  have fields:
    "newOfferCount (parseKeepaProduct now dayOf raw) = clampedCount (countRead raw offerCountNew COUNT_NEW)"
    "usedOfferCount (parseKeepaProduct now dayOf raw) = clampedCount (countRead raw offerCountUsed COUNT_USED)"
    "fbaOfferCount (parseKeepaProduct now dayOf raw) = clampedCount (countRead raw offerCountFBA COUNT_NEW_FBA)"
    "reviewCount (parseKeepaProduct now dayOf raw) = clampedCount (snapshotOrLatest raw COUNT_REVIEWS)"
    "buyBoxPrice (parseKeepaProduct now dayOf raw) = positiveOrNull (statsField raw statsBuyBoxPrice)"
    "amazonPrice (parseKeepaProduct now dayOf raw) = noDataIfNegative (snapshotOrLatest raw AMAZON)"
    "newPrice (parseKeepaProduct now dayOf raw) = noDataIfNegative (snapshotOrLatest raw NEW)"
    "usedPrice (parseKeepaProduct now dayOf raw) = noDataIfNegative (snapshotOrLatest raw USED)"
    "newFbaPrice (parseKeepaProduct now dayOf raw) = noDataIfNegative (snapshotOrLatest raw NEW_FBA)"
    "avgPrice90 (parseKeepaProduct now dayOf raw) = noDataIfNegative (statsArrayAt raw avg90 NEW)"
    "salesRank (parseKeepaProduct now dayOf raw) = noDataIfNegative (lastEntry (csvAt raw SALES_RANK))"
    "rating (parseKeepaProduct now dayOf raw) = noDataIfNegative (snapshotOrLatest raw RATING)"
    "outOfStockPercentage90 (parseKeepaProduct now dayOf raw) = percentageOrNull (statsField raw statsOutOfStockPercentage90)"
    by (rule parse_fields)+
  have counts:
    "0 \<le> newOfferCount (parseKeepaProduct now dayOf raw)"
    "0 \<le> usedOfferCount (parseKeepaProduct now dayOf raw)"
    "0 \<le> fbaOfferCount (parseKeepaProduct now dayOf raw)"
    "0 \<le> reviewCount (parseKeepaProduct now dayOf raw)"
    unfolding fields by (simp_all add: clampedCount_def split: option.splits)
  have box: "nullOrPositive (buyBoxPrice (parseKeepaProduct now dayOf raw))"
    unfolding fields by (simp add: positiveOrNull_def nullOrPositive_def split: option.splits)
  have prices:
    "nullOrAtLeast 0 (amazonPrice (parseKeepaProduct now dayOf raw))"
    "nullOrAtLeast 0 (newPrice (parseKeepaProduct now dayOf raw))"
    "nullOrAtLeast 0 (usedPrice (parseKeepaProduct now dayOf raw))"
    "nullOrAtLeast 0 (newFbaPrice (parseKeepaProduct now dayOf raw))"
    "nullOrAtLeast 0 (avgPrice90 (parseKeepaProduct now dayOf raw))"
    "nullOrAtLeast 0 (salesRank (parseKeepaProduct now dayOf raw))"
    "nullOrAtLeast 0 (rating (parseKeepaProduct now dayOf raw))"
    unfolding fields by (rule noDataIfNegative_nonneg)+
  have oos: "nullOrPercentage (outOfStockPercentage90 (parseKeepaProduct now dayOf raw))"
    unfolding fields by (simp add: percentageOrNull_def nullOrPercentage_def split: option.splits)
  have negative: "(snapshotOrLatest raw AMAZON = Some v \<longrightarrow>
           amazonPrice (parseKeepaProduct now dayOf raw) = None)
     \<and> (snapshotOrLatest raw NEW = Some v \<longrightarrow>
           newPrice (parseKeepaProduct now dayOf raw) = None)
     \<and> (snapshotOrLatest raw USED = Some v \<longrightarrow>
           usedPrice (parseKeepaProduct now dayOf raw) = None)
     \<and> (snapshotOrLatest raw NEW_FBA = Some v \<longrightarrow>
           newFbaPrice (parseKeepaProduct now dayOf raw) = None)
     \<and> (statsArrayAt raw avg90 NEW = Some v \<longrightarrow>
           avgPrice90 (parseKeepaProduct now dayOf raw) = None)
     \<and> (lastEntry (csvAt raw SALES_RANK) = Some v \<longrightarrow>
           salesRank (parseKeepaProduct now dayOf raw) = None)
     \<and> (snapshotOrLatest raw RATING = Some v \<longrightarrow>
           rating (parseKeepaProduct now dayOf raw) = None)
     \<and> (countRead raw offerCountNew COUNT_NEW = Some v \<longrightarrow>
           newOfferCount (parseKeepaProduct now dayOf raw) = 0)
     \<and> (countRead raw offerCountUsed COUNT_USED = Some v \<longrightarrow>
           usedOfferCount (parseKeepaProduct now dayOf raw) = 0)
     \<and> (countRead raw offerCountFBA COUNT_NEW_FBA = Some v \<longrightarrow>
           fbaOfferCount (parseKeepaProduct now dayOf raw) = 0)
     \<and> (snapshotOrLatest raw COUNT_REVIEWS = Some v \<longrightarrow>
           reviewCount (parseKeepaProduct now dayOf raw) = 0)" if "v < 0" for v
    unfolding fields using that
    by (simp add: noDataIfNegative_def clampedCount_def)
  have kept: "(snapshotOrLatest raw AMAZON = Some v \<longrightarrow>
           amazonPrice (parseKeepaProduct now dayOf raw) = Some v)
     \<and> (snapshotOrLatest raw NEW = Some v \<longrightarrow>
           newPrice (parseKeepaProduct now dayOf raw) = Some v)
     \<and> (snapshotOrLatest raw USED = Some v \<longrightarrow>
           usedPrice (parseKeepaProduct now dayOf raw) = Some v)
     \<and> (snapshotOrLatest raw NEW_FBA = Some v \<longrightarrow>
           newFbaPrice (parseKeepaProduct now dayOf raw) = Some v)
     \<and> (statsArrayAt raw avg90 NEW = Some v \<longrightarrow>
           avgPrice90 (parseKeepaProduct now dayOf raw) = Some v)
     \<and> (lastEntry (csvAt raw SALES_RANK) = Some v \<longrightarrow>
           salesRank (parseKeepaProduct now dayOf raw) = Some v)
     \<and> (snapshotOrLatest raw RATING = Some v \<longrightarrow>
           rating (parseKeepaProduct now dayOf raw) = Some v)
     \<and> (countRead raw offerCountNew COUNT_NEW = Some v \<longrightarrow>
           newOfferCount (parseKeepaProduct now dayOf raw) = v)
     \<and> (countRead raw offerCountUsed COUNT_USED = Some v \<longrightarrow>
           usedOfferCount (parseKeepaProduct now dayOf raw) = v)
     \<and> (countRead raw offerCountFBA COUNT_NEW_FBA = Some v \<longrightarrow>
           fbaOfferCount (parseKeepaProduct now dayOf raw) = v)
     \<and> (snapshotOrLatest raw COUNT_REVIEWS = Some v \<longrightarrow>
           reviewCount (parseKeepaProduct now dayOf raw) = v)" if "v \<ge> 0" for v
    unfolding fields using that
    by (simp add: noDataIfNegative_def clampedCount_def)
  have zero: "buyBoxPrice (parseKeepaProduct now dayOf raw) = None"
    if "b \<le> 0" "statsField raw statsBuyBoxPrice = Some b" for b
    unfolding fields using that by (simp add: positiveOrNull_def)
  have negative_all: "(\<forall>v<0. (snapshotOrLatest raw AMAZON = Some v \<longrightarrow>
           amazonPrice (parseKeepaProduct now dayOf raw) = None)
     \<and> (snapshotOrLatest raw NEW = Some v \<longrightarrow>
           newPrice (parseKeepaProduct now dayOf raw) = None)
     \<and> (snapshotOrLatest raw USED = Some v \<longrightarrow>
           usedPrice (parseKeepaProduct now dayOf raw) = None)
     \<and> (snapshotOrLatest raw NEW_FBA = Some v \<longrightarrow>
           newFbaPrice (parseKeepaProduct now dayOf raw) = None)
     \<and> (statsArrayAt raw avg90 NEW = Some v \<longrightarrow>
           avgPrice90 (parseKeepaProduct now dayOf raw) = None)
     \<and> (lastEntry (csvAt raw SALES_RANK) = Some v \<longrightarrow>
           salesRank (parseKeepaProduct now dayOf raw) = None)
     \<and> (snapshotOrLatest raw RATING = Some v \<longrightarrow>
           rating (parseKeepaProduct now dayOf raw) = None)
     \<and> (countRead raw offerCountNew COUNT_NEW = Some v \<longrightarrow>
           newOfferCount (parseKeepaProduct now dayOf raw) = 0)
     \<and> (countRead raw offerCountUsed COUNT_USED = Some v \<longrightarrow>
           usedOfferCount (parseKeepaProduct now dayOf raw) = 0)
     \<and> (countRead raw offerCountFBA COUNT_NEW_FBA = Some v \<longrightarrow>
           fbaOfferCount (parseKeepaProduct now dayOf raw) = 0)
     \<and> (snapshotOrLatest raw COUNT_REVIEWS = Some v \<longrightarrow>
           reviewCount (parseKeepaProduct now dayOf raw) = 0))"
    using negative by (intro allI impI)
  have kept_all: "(\<forall>v\<ge>0. (snapshotOrLatest raw AMAZON = Some v \<longrightarrow>
           amazonPrice (parseKeepaProduct now dayOf raw) = Some v)
     \<and> (snapshotOrLatest raw NEW = Some v \<longrightarrow>
           newPrice (parseKeepaProduct now dayOf raw) = Some v)
     \<and> (snapshotOrLatest raw USED = Some v \<longrightarrow>
           usedPrice (parseKeepaProduct now dayOf raw) = Some v)
     \<and> (snapshotOrLatest raw NEW_FBA = Some v \<longrightarrow>
           newFbaPrice (parseKeepaProduct now dayOf raw) = Some v)
     \<and> (statsArrayAt raw avg90 NEW = Some v \<longrightarrow>
           avgPrice90 (parseKeepaProduct now dayOf raw) = Some v)
     \<and> (lastEntry (csvAt raw SALES_RANK) = Some v \<longrightarrow>
           salesRank (parseKeepaProduct now dayOf raw) = Some v)
     \<and> (snapshotOrLatest raw RATING = Some v \<longrightarrow>
           rating (parseKeepaProduct now dayOf raw) = Some v)
     \<and> (countRead raw offerCountNew COUNT_NEW = Some v \<longrightarrow>
           newOfferCount (parseKeepaProduct now dayOf raw) = v)
     \<and> (countRead raw offerCountUsed COUNT_USED = Some v \<longrightarrow>
           usedOfferCount (parseKeepaProduct now dayOf raw) = v)
     \<and> (countRead raw offerCountFBA COUNT_NEW_FBA = Some v \<longrightarrow>
           fbaOfferCount (parseKeepaProduct now dayOf raw) = v)
     \<and> (snapshotOrLatest raw COUNT_REVIEWS = Some v \<longrightarrow>
           reviewCount (parseKeepaProduct now dayOf raw) = v))"
    using kept by (intro allI impI)
  have zero_all: "(\<forall>b\<le>0. statsField raw statsBuyBoxPrice = Some b \<longrightarrow>
           buyBoxPrice (parseKeepaProduct now dayOf raw) = None)"
    using zero by (intro allI impI)
  show ?thesis
    by (intro conjI; fact fields counts box prices oos negative_all kept_all zero_all)
qed

theorem parseKeepaProduct_invariants_witness:
  "snapshotOrLatest noDataPayload AMAZON = Some (- 1)
   \<and> amazonPrice (parseKeepaProduct 0 utcDay noDataPayload) = None
   \<and> snapshotOrLatest noDataPayload USED = Some (- 1)
   \<and> usedPrice (parseKeepaProduct 0 utcDay noDataPayload) = None
   \<and> lastEntry (csvAt noDataPayload SALES_RANK) = Some (- 1)
   \<and> salesRank (parseKeepaProduct 0 utcDay noDataPayload) = None
   \<and> countRead noDataPayload offerCountNew COUNT_NEW = Some (- 2)
   \<and> newOfferCount (parseKeepaProduct 0 utcDay noDataPayload) = 0
   \<and> statsField noDataPayload statsBuyBoxPrice = Some 0
   \<and> buyBoxPrice (parseKeepaProduct 0 utcDay noDataPayload) = None
   \<and> lastEntry (csvAt listedPayload SALES_RANK) = Some 48000
   \<and> salesRank (parseKeepaProduct 0 utcDay listedPayload) = Some 48000
   \<and> snapshotOrLatest listedPayload NEW = Some 4599
   \<and> newPrice (parseKeepaProduct 0 utcDay listedPayload) = Some 4599
   \<and> buyBoxPrice (parseKeepaProduct 0 utcDay listedPayload) = Some 4350
   \<and> nullOrPositive (Some 4350)
   \<and> outOfStockPercentage90 (parseKeepaProduct 0 utcDay listedPayload) = Some 5
   \<and> nullOrPercentage (Some 5)"
proof -
  have h: "snapshotOrLatest noDataPayload AMAZON = Some (- 1)"
    "snapshotOrLatest noDataPayload USED = Some (- 1)"
    "lastEntry (csvAt noDataPayload SALES_RANK) = Some (- 1)"
    "countRead noDataPayload offerCountNew COUNT_NEW = Some (- 2)"
    "statsField noDataPayload statsBuyBoxPrice = Some 0"
    "lastEntry (csvAt listedPayload SALES_RANK) = Some 48000"
    "snapshotOrLatest listedPayload NEW = Some 4599"
    by code_simp+
  have v: "positiveOrNull (statsField listedPayload statsBuyBoxPrice) = Some 4350"
    "percentageOrNull (statsField listedPayload statsOutOfStockPercentage90) = Some 5"
    by code_simp+
  note a = parseKeepaProduct_invariants[of 0 utcDay noDataPayload]
  note b = parseKeepaProduct_invariants[of 0 utcDay listedPayload]
  note negative = a[
      THEN conjunct2, THEN conjunct2, THEN conjunct2, THEN conjunct2, THEN conjunct2,
      THEN conjunct2, THEN conjunct2, THEN conjunct2, THEN conjunct2, THEN conjunct2,
      THEN conjunct2, THEN conjunct2, THEN conjunct2, THEN conjunct2, THEN conjunct2,
      THEN conjunct2, THEN conjunct2, THEN conjunct2, THEN conjunct2, THEN conjunct2,
      THEN conjunct2, THEN conjunct2, THEN conjunct2, THEN conjunct2, THEN conjunct2,
      THEN conjunct2, THEN conjunct1]
  note kept = b[
      THEN conjunct2, THEN conjunct2, THEN conjunct2, THEN conjunct2, THEN conjunct2,
      THEN conjunct2, THEN conjunct2, THEN conjunct2, THEN conjunct2, THEN conjunct2,
      THEN conjunct2, THEN conjunct2, THEN conjunct2, THEN conjunct2, THEN conjunct2,
      THEN conjunct2, THEN conjunct2, THEN conjunct2, THEN conjunct2, THEN conjunct2,
      THEN conjunct2, THEN conjunct2, THEN conjunct2, THEN conjunct2, THEN conjunct2,
      THEN conjunct2, THEN conjunct2, THEN conjunct1]
  note zero = a[
      THEN conjunct2, THEN conjunct2, THEN conjunct2, THEN conjunct2, THEN conjunct2,
      THEN conjunct2, THEN conjunct2, THEN conjunct2, THEN conjunct2, THEN conjunct2,
      THEN conjunct2, THEN conjunct2, THEN conjunct2, THEN conjunct2, THEN conjunct2,
      THEN conjunct2, THEN conjunct2, THEN conjunct2, THEN conjunct2, THEN conjunct2,
      THEN conjunct2, THEN conjunct2, THEN conjunct2, THEN conjunct2, THEN conjunct2,
      THEN conjunct2, THEN conjunct2, THEN conjunct2]
  have n1: "amazonPrice (parseKeepaProduct 0 utcDay noDataPayload) = None"
    using negative[rule_format, of "- 1", THEN conjunct1] h(1) by simp
  have n2: "usedPrice (parseKeepaProduct 0 utcDay noDataPayload) = None"
    using negative[rule_format, of "- 1", THEN conjunct2, THEN conjunct2, THEN conjunct1] h(2)
    by simp
  have n3: "salesRank (parseKeepaProduct 0 utcDay noDataPayload) = None"
    using negative[rule_format, of "- 1", THEN conjunct2, THEN conjunct2, THEN conjunct2,
        THEN conjunct2, THEN conjunct2, THEN conjunct1] h(3)
    by simp
  have n4: "newOfferCount (parseKeepaProduct 0 utcDay noDataPayload) = 0"
    using negative[rule_format, of "- 2", THEN conjunct2, THEN conjunct2, THEN conjunct2,
        THEN conjunct2, THEN conjunct2, THEN conjunct2, THEN conjunct2, THEN conjunct1] h(4)
    by simp
  have n5: "buyBoxPrice (parseKeepaProduct 0 utcDay noDataPayload) = None"
    using zero[rule_format, of 0] h(5) by simp
  have k1: "salesRank (parseKeepaProduct 0 utcDay listedPayload) = Some 48000"
    using kept[rule_format, of 48000, THEN conjunct2, THEN conjunct2, THEN conjunct2,
        THEN conjunct2, THEN conjunct2, THEN conjunct1] h(6)
    by simp
  have k2: "newPrice (parseKeepaProduct 0 utcDay listedPayload) = Some 4599"
    using kept[rule_format, of 4599, THEN conjunct2, THEN conjunct1] h(7)
    by simp
  have e1: "buyBoxPrice (parseKeepaProduct 0 utcDay listedPayload) = Some 4350"
    using b[
      THEN conjunct2, THEN conjunct2, THEN conjunct2, THEN conjunct2, THEN conjunct1] v(1) by simp
  have e2: "outOfStockPercentage90 (parseKeepaProduct 0 utcDay listedPayload) = Some 5"
    using b[
      THEN conjunct2, THEN conjunct2, THEN conjunct2, THEN conjunct2, THEN conjunct2,
      THEN conjunct2, THEN conjunct2, THEN conjunct2, THEN conjunct2, THEN conjunct2,
      THEN conjunct2, THEN conjunct2, THEN conjunct1] v(2) by simp
  have p1: "nullOrPositive (Some 4350)"
    using b[
      THEN conjunct2, THEN conjunct2, THEN conjunct2, THEN conjunct2, THEN conjunct2,
      THEN conjunct2, THEN conjunct2, THEN conjunct2, THEN conjunct2, THEN conjunct2,
      THEN conjunct2, THEN conjunct2, THEN conjunct2, THEN conjunct2, THEN conjunct2,
      THEN conjunct2, THEN conjunct2, THEN conjunct1] unfolding e1 .
  have p2: "nullOrPercentage (Some 5)"
    using b[
      THEN conjunct2, THEN conjunct2, THEN conjunct2, THEN conjunct2, THEN conjunct2,
      THEN conjunct2, THEN conjunct2, THEN conjunct2, THEN conjunct2, THEN conjunct2,
      THEN conjunct2, THEN conjunct2, THEN conjunct2, THEN conjunct2, THEN conjunct2,
      THEN conjunct2, THEN conjunct2, THEN conjunct2, THEN conjunct2, THEN conjunct2,
      THEN conjunct2, THEN conjunct2, THEN conjunct2, THEN conjunct2, THEN conjunct2,
      THEN conjunct1] unfolding e2 .
  show ?thesis
    by (intro conjI; fact h n1 n2 n3 n4 n5 k1 k2 e1 e2 p1 p2)
qed
subsection \<open>The token cache\<close>




end
